theory Spec2Isabelle
  imports Main "HOL-Library.Word"
begin

section \<open>The build configuration of \<^verbatim>\<open>global_lock.h\<close>\<close>

text \<open>
  The header picks its implementation with preprocessor conditionals.  The macros it tests
  are the input of that decision: a macro that is only tested with \<^verbatim>\<open>defined\<close> is a
  \<open>bool\<close>, a macro whose value is compared is an \<open>int option\<close> (\<open>None\<close>: not defined).
  \<^verbatim>\<open>__has_builtin\<close> is \<open>None\<close> when the compiler does not define it, and otherwise the pair of
  its answers for \<^verbatim>\<open>__atomic_exchange_n\<close> and \<^verbatim>\<open>__sync_lock_test_and_set\<close>.  The three
  configuration macros of lines 40-50 are \<open>None\<close> when the including file did not define
  them, and otherwise the text they expand to.
\<close>

record cpp_env =
  GLOBAL_LOCK_FUNC_NAME :: "string option"
  GLOBAL_UNLOCK_FUNC_NAME :: "string option"
  GLOBAL_LOCK_FUNC_SCOPE :: "string option"
  GNUC :: "int option"
  GNUC_MINOR :: "int option"
  clang :: bool
  has_builtin :: "(bool \<times> bool) option"
  WIN32 :: bool
  WIN32_WINNT :: "int option"
  STDC_VERSION :: "int option"
  STDC_NO_THREADS :: bool
  STDC_NO_ATOMICS :: bool
  POSIX_THREADS :: "int option"
  POSIX_PRIORITY_SCHEDULING :: bool
  x86_64 :: bool
  amd64 :: bool
  M_X64 :: bool
  i386 :: bool
  M_IX86 :: bool

datatype strategy =
    C11_THREADS
  | PTHREAD
  | WIN32_CS
  | STDATOMIC
  | GCC_ATOMIC_BUILTIN
  | GCC_SYNC_BUILTIN

datatype spin_wait = MM_PAUSE | SCHED_YIELD | BUSY_LOOP

type_synonym diagnostic = string

definition vista_diagnostic :: diagnostic where
  "vista_diagnostic =
     ''This program requires Windows Vista or later. Define _WIN32_WINNT accordingly.''"

definition no_lock_diagnostic :: diagnostic where
  "no_lock_diagnostic = ''No valid locking mechanism found on this platform.''"

text \<open>An identifier that is not defined evaluates to 0 inside \<^verbatim>\<open>#if\<close>.\<close>

definition macro_value :: "int option \<Rightarrow> int" where
  "macro_value m = (case m of None \<Rightarrow> 0 | Some v \<Rightarrow> v)"

text \<open>Line 66: the condition of the first \<^verbatim>\<open>#error\<close>.\<close>

definition winnt_too_old :: "cpp_env \<Rightarrow> bool" where
  "winnt_too_old e = (WIN32 e \<and> (WIN32_WINNT e = None \<or> macro_value (WIN32_WINNT e) < 0x0600))"

text \<open>Lines 76, 89, 94, 114 and 119: the conditions of the \<^verbatim>\<open>#if\<close> chain.\<close>

definition stdc11 :: "cpp_env \<Rightarrow> bool" where
  "stdc11 e = (STDC_VERSION e \<noteq> None \<and> macro_value (STDC_VERSION e) \<ge> 201112)"

definition c11_threads_cond :: "cpp_env \<Rightarrow> bool" where
  "c11_threads_cond e = (stdc11 e \<and> \<not> STDC_NO_THREADS e)"

definition pthread_cond :: "cpp_env \<Rightarrow> bool" where
  "pthread_cond e = (POSIX_THREADS e \<noteq> None \<and> macro_value (POSIX_THREADS e) > 0)"

definition stdatomic_cond :: "cpp_env \<Rightarrow> bool" where
  "stdatomic_cond e = (stdc11 e \<and> \<not> STDC_NO_ATOMICS e)"

text \<open>
  Lines 120-132, inside \<^verbatim>\<open>#elif defined (__GNUC__)\<close>: which of
  \<^verbatim>\<open>GCC_ATOMIC_BUILTIN_AVAILABLE\<close> and \<^verbatim>\<open>GCC_SYNC_BUILTIN_AVAILABLE\<close> gets defined, if any.
\<close>

definition gcc_builtin :: "cpp_env \<Rightarrow> strategy option" where
  "gcc_builtin e =
     (case has_builtin e of
        Some (has_exchange, has_sync) \<Rightarrow>
          if has_exchange then Some GCC_ATOMIC_BUILTIN
          else if has_sync then Some GCC_SYNC_BUILTIN
          else None
      | None \<Rightarrow>
          if GNUC_MINOR e \<noteq> None then
            if macro_value (GNUC e) > 4
               \<or> (macro_value (GNUC e) = 4 \<and> macro_value (GNUC_MINOR e) \<ge> 7)
            then Some GCC_ATOMIC_BUILTIN
            else if \<not> clang e
               \<and> (macro_value (GNUC e) = 4 \<and> macro_value (GNUC_MINOR e) \<ge> 1)
            then Some GCC_SYNC_BUILTIN
            else None
          else None)"

text \<open>
  Lines 66-140.  A \<^verbatim>\<open>#error\<close> stops the build with its message (\<open>Inl\<close>); otherwise the
  chain binds the implementation to one strategy (\<open>Inr\<close>).
\<close>

definition select_strategy :: "cpp_env \<Rightarrow> diagnostic + strategy" where
  "select_strategy e =
     (if winnt_too_old e then Inl vista_diagnostic
      else if c11_threads_cond e then Inr C11_THREADS
      else if pthread_cond e then Inr PTHREAD
      else if WIN32 e then Inr WIN32_CS
      else if stdatomic_cond e then Inr STDATOMIC
      else if GNUC e \<noteq> None then
        (case gcc_builtin e of
           Some s \<Rightarrow> Inr s
         | None \<Rightarrow> Inl no_lock_diagnostic)
      else Inl no_lock_diagnostic)"

text \<open>
  Lines 143-153.  \<^verbatim>\<open>C11_THREADS_AVAILABLE\<close> and \<^verbatim>\<open>PTHREAD_AVAILABLE\<close> are defined by the
  first two branches of the chain above, so the guard of line 143 is their conditions
  negated.  \<open>None\<close>: \<^verbatim>\<open>SPIN_WAIT\<close> is not defined.
\<close>

definition is_x86 :: "cpp_env \<Rightarrow> bool" where
  "is_x86 e = (x86_64 e \<or> amd64 e \<or> M_X64 e \<or> i386 e \<or> M_IX86 e)"

definition select_spin_wait :: "cpp_env \<Rightarrow> spin_wait option" where
  "select_spin_wait e =
     (if \<not> c11_threads_cond e \<and> \<not> pthread_cond e \<and> \<not> WIN32 e then
        Some (if is_x86 e then MM_PAUSE
              else if POSIX_PRIORITY_SCHEDULING e then SCHED_YIELD
              else BUSY_LOOP)
      else None)"

text \<open>
  Lines 40-50 and the two definitions of lines 156 and 190: the names default to
  \<^verbatim>\<open>global_lock_lock\<close> and \<^verbatim>\<open>global_lock_unlock\<close>, the scope defaults to blank, and the
  scope's text is written in front of \<^verbatim>\<open>void\<close> as it is.
\<close>

definition lock_func_name :: "cpp_env \<Rightarrow> string" where
  "lock_func_name e =
     (case GLOBAL_LOCK_FUNC_NAME e of None \<Rightarrow> ''global_lock_lock'' | Some n \<Rightarrow> n)"

definition unlock_func_name :: "cpp_env \<Rightarrow> string" where
  "unlock_func_name e =
     (case GLOBAL_UNLOCK_FUNC_NAME e of None \<Rightarrow> ''global_lock_unlock'' | Some n \<Rightarrow> n)"

definition func_scope :: "cpp_env \<Rightarrow> string" where
  "func_scope e = (case GLOBAL_LOCK_FUNC_SCOPE e of None \<Rightarrow> '''' | Some s \<Rightarrow> s)"

record translation_unit =
  tu_strategy :: strategy
  tu_spin_wait :: "spin_wait option"
  tu_lock_decl :: string
  tu_unlock_decl :: string

definition preprocess :: "cpp_env \<Rightarrow> diagnostic + translation_unit" where
  "preprocess e =
     (case select_strategy e of
        Inl d \<Rightarrow> Inl d
      | Inr s \<Rightarrow>
          Inr \<lparr> tu_strategy = s,
                tu_spin_wait = select_spin_wait e,
                tu_lock_decl = func_scope e @ '' void '' @ lock_func_name e @ '' (void)'',
                tu_unlock_decl = func_scope e @ '' void '' @ unlock_func_name e @ '' (void)'' \<rparr>)"


section \<open>The run-time state\<close>

text \<open>
  The header's variables are one record: a build has only the variables of its strategy, the
  record has them all.  A mutex or critical section is in one of four states; the once-flags
  are \<open>True\<close> after a completed initialisation; \<open>global_lock_lock_flag\<close> is the
  \<^verbatim>\<open>atomic_flag\<close> and \<open>global_lock_lock_int\<close> the \<^verbatim>\<open>int\<close> of the builtin strategies.

  Beside the variables the record holds what the process shows to the outside: the text
  written to \<^verbatim>\<open>stderr\<close>, the exit status once \<^verbatim>\<open>exit\<close> was called, a flag raised when a
  library call is made outside its contract (locking an object that was never constructed,
  unlocking one that is not locked, destroying a locked one), and the log of the library
  calls performed, each with the thread that made it.
\<close>

datatype resource = Unconstructed | Unlocked | Locked | Destroyed

datatype exit_status = EXIT_SUCCESS | EXIT_FAILURE

type_synonym tid = nat

datatype call =
    CALL_ONCE
  | MTX_INIT bool
  | FPRINTF_STDERR string
  | EXIT exit_status
  | MTX_LOCK
  | MTX_UNLOCK
  | MTX_DESTROY
  | PTHREAD_MUTEX_LOCK
  | PTHREAD_MUTEX_UNLOCK
  | PTHREAD_MUTEX_DESTROY
  | GET_VERSION_EX
  | INIT_ONCE_EXECUTE_ONCE
  | INITIALIZE_CRITICAL_SECTION
  | ENTER_CRITICAL_SECTION
  | LEAVE_CRITICAL_SECTION
  | DELETE_CRITICAL_SECTION
  | ATOMIC_FLAG_TEST_AND_SET bool
  | ATOMIC_FLAG_CLEAR
  | ATOMIC_EXCHANGE_N int
  | ATOMIC_STORE_N int
  | SYNC_LOCK_TEST_AND_SET int
  | SYNC_LOCK_RELEASE
  | MM_PAUSE_CALL
  | SCHED_YIELD_CALL
  | MEMORY_BARRIER

record gstate =
  global_lock_lock_mutex :: resource
  mtx_init_once :: bool
  global_lock_lock_cs :: resource
  cs_init_once :: bool
  winver_checked :: bool
  global_lock_lock_flag :: bool
  global_lock_lock_int :: int
  stderr :: string
  exited :: "exit_status option"
  contract_broken :: bool
  calls :: "(tid \<times> call) list"

text \<open>
  What the code cannot decide by itself is a parameter of the run: the strategy and the
  spin-wait the build selected, whether \<^verbatim>\<open>mtx_init\<close> returns \<^verbatim>\<open>thrd_success\<close>, what
  \<^verbatim>\<open>GetVersionEx\<close> answers (\<open>None\<close>: the call fails; otherwise \<^verbatim>\<open>dwMajorVersion\<close>, a
  \<^verbatim>\<open>DWORD\<close>), and the text of \<^verbatim>\<open>__FILE__\<close>.
\<close>

record cfg =
  strategy :: strategy
  spin :: spin_wait
  mtx_init_succeeds :: bool
  GetVersionEx :: "32 word option"
  FILE :: string

definition init_gstate :: "cfg \<Rightarrow> gstate" where
  "init_gstate c =
     \<lparr> global_lock_lock_mutex = (if strategy c = PTHREAD then Unlocked else Unconstructed),
       mtx_init_once = False,
       global_lock_lock_cs = Unconstructed,
       cs_init_once = False,
       winver_checked = False,
       global_lock_lock_flag = False,
       global_lock_lock_int = 0,
       stderr = [],
       exited = None,
       contract_broken = False,
       calls = [] \<rparr>"

definition log_call :: "tid \<Rightarrow> call \<Rightarrow> gstate \<Rightarrow> gstate" where
  "log_call t c g = g\<lparr>calls := calls g @ [(t, c)]\<rparr>"

definition fprintf_stderr :: "tid \<Rightarrow> string \<Rightarrow> gstate \<Rightarrow> gstate" where
  "fprintf_stderr t msg g = log_call t (FPRINTF_STDERR msg) (g\<lparr>stderr := stderr g @ msg\<rparr>)"

definition exit_process :: "tid \<Rightarrow> exit_status \<Rightarrow> gstate \<Rightarrow> gstate" where
  "exit_process t st g = log_call t (EXIT st) (g\<lparr>exited := Some st\<rparr>)"

subsection \<open>The library calls\<close>

text \<open>
  Each library call is one atomic transition, as its contract promises.  A blocking
  acquisition returns whether the caller got the object: when it did not, the caller is
  still inside the call and nothing has changed.  The header ignores the values the lock,
  unlock and destroy calls return, so the calls have none here.  An object has no owner
  here: a critical section that its owner enters a second time is outside what is
  modelled, as the threads below never do that.
\<close>

definition mtx_lock :: "tid \<Rightarrow> gstate \<Rightarrow> bool \<times> gstate" where
  "mtx_lock t g =
     (case global_lock_lock_mutex g of
        Unlocked \<Rightarrow> (True, log_call t MTX_LOCK (g\<lparr>global_lock_lock_mutex := Locked\<rparr>))
      | Locked \<Rightarrow> (False, g)
      | _ \<Rightarrow> (False, g\<lparr>contract_broken := True\<rparr>))"

definition mtx_unlock :: "tid \<Rightarrow> gstate \<Rightarrow> gstate" where
  "mtx_unlock t g =
     log_call t MTX_UNLOCK
       (case global_lock_lock_mutex g of
          Locked \<Rightarrow> g\<lparr>global_lock_lock_mutex := Unlocked\<rparr>
        | _ \<Rightarrow> g\<lparr>contract_broken := True\<rparr>)"

definition mtx_destroy :: "tid \<Rightarrow> gstate \<Rightarrow> gstate" where
  "mtx_destroy t g =
     log_call t MTX_DESTROY
       (case global_lock_lock_mutex g of
          Unlocked \<Rightarrow> g\<lparr>global_lock_lock_mutex := Destroyed\<rparr>
        | _ \<Rightarrow> g\<lparr>contract_broken := True\<rparr>)"

definition pthread_mutex_lock :: "tid \<Rightarrow> gstate \<Rightarrow> bool \<times> gstate" where
  "pthread_mutex_lock t g =
     (case global_lock_lock_mutex g of
        Unlocked \<Rightarrow> (True, log_call t PTHREAD_MUTEX_LOCK (g\<lparr>global_lock_lock_mutex := Locked\<rparr>))
      | Locked \<Rightarrow> (False, g)
      | _ \<Rightarrow> (False, g\<lparr>contract_broken := True\<rparr>))"

definition pthread_mutex_unlock :: "tid \<Rightarrow> gstate \<Rightarrow> gstate" where
  "pthread_mutex_unlock t g =
     log_call t PTHREAD_MUTEX_UNLOCK
       (case global_lock_lock_mutex g of
          Locked \<Rightarrow> g\<lparr>global_lock_lock_mutex := Unlocked\<rparr>
        | _ \<Rightarrow> g\<lparr>contract_broken := True\<rparr>)"

definition pthread_mutex_destroy :: "tid \<Rightarrow> gstate \<Rightarrow> gstate" where
  "pthread_mutex_destroy t g =
     log_call t PTHREAD_MUTEX_DESTROY
       (case global_lock_lock_mutex g of
          Unlocked \<Rightarrow> g\<lparr>global_lock_lock_mutex := Destroyed\<rparr>
        | _ \<Rightarrow> g\<lparr>contract_broken := True\<rparr>)"

definition EnterCriticalSection :: "tid \<Rightarrow> gstate \<Rightarrow> bool \<times> gstate" where
  "EnterCriticalSection t g =
     (case global_lock_lock_cs g of
        Unlocked \<Rightarrow> (True, log_call t ENTER_CRITICAL_SECTION (g\<lparr>global_lock_lock_cs := Locked\<rparr>))
      | Locked \<Rightarrow> (False, g)
      | _ \<Rightarrow> (False, g\<lparr>contract_broken := True\<rparr>))"

definition LeaveCriticalSection :: "tid \<Rightarrow> gstate \<Rightarrow> gstate" where
  "LeaveCriticalSection t g =
     log_call t LEAVE_CRITICAL_SECTION
       (case global_lock_lock_cs g of
          Locked \<Rightarrow> g\<lparr>global_lock_lock_cs := Unlocked\<rparr>
        | _ \<Rightarrow> g\<lparr>contract_broken := True\<rparr>)"

definition DeleteCriticalSection :: "tid \<Rightarrow> gstate \<Rightarrow> gstate" where
  "DeleteCriticalSection t g =
     log_call t DELETE_CRITICAL_SECTION
       (case global_lock_lock_cs g of
          Unlocked \<Rightarrow> g\<lparr>global_lock_lock_cs := Destroyed\<rparr>
        | _ \<Rightarrow> g\<lparr>contract_broken := True\<rparr>)"

text \<open>
  The three atomic read-modify-write operations return the value they found.  The code asks
  for acquire order on the test-and-set and release order on the clear, and for
  sequentially consistent order on the exchange and the store; the two \<^verbatim>\<open>__sync\<close> builtins
  are an acquire and a release barrier.  That is what lets each of them be one step of an
  interleaving.
\<close>

definition atomic_flag_test_and_set :: "tid \<Rightarrow> gstate \<Rightarrow> bool \<times> gstate" where
  "atomic_flag_test_and_set t g =
     (global_lock_lock_flag g,
      log_call t (ATOMIC_FLAG_TEST_AND_SET (global_lock_lock_flag g))
        (g\<lparr>global_lock_lock_flag := True\<rparr>))"

definition atomic_flag_clear :: "tid \<Rightarrow> gstate \<Rightarrow> gstate" where
  "atomic_flag_clear t g = log_call t ATOMIC_FLAG_CLEAR (g\<lparr>global_lock_lock_flag := False\<rparr>)"

definition atomic_exchange_n :: "tid \<Rightarrow> int \<Rightarrow> gstate \<Rightarrow> int \<times> gstate" where
  "atomic_exchange_n t v g =
     (global_lock_lock_int g,
      log_call t (ATOMIC_EXCHANGE_N (global_lock_lock_int g)) (g\<lparr>global_lock_lock_int := v\<rparr>))"

definition atomic_store_n :: "tid \<Rightarrow> int \<Rightarrow> gstate \<Rightarrow> gstate" where
  "atomic_store_n t v g = log_call t (ATOMIC_STORE_N v) (g\<lparr>global_lock_lock_int := v\<rparr>)"

definition sync_lock_test_and_set :: "tid \<Rightarrow> int \<Rightarrow> gstate \<Rightarrow> int \<times> gstate" where
  "sync_lock_test_and_set t v g =
     (global_lock_lock_int g,
      log_call t (SYNC_LOCK_TEST_AND_SET (global_lock_lock_int g))
        (g\<lparr>global_lock_lock_int := v\<rparr>))"

definition sync_lock_release :: "tid \<Rightarrow> gstate \<Rightarrow> gstate" where
  "sync_lock_release t g = log_call t SYNC_LOCK_RELEASE (g\<lparr>global_lock_lock_int := 0\<rparr>)"


section \<open>The code of the header\<close>

subsection \<open>One-time initialisation (lines 80-113)\<close>

text \<open>\<^verbatim>\<open>%d\<close> of a line number: its decimal digits.\<close>

fun decimal :: "nat \<Rightarrow> string" where
  "decimal n =
     (if n < 10 then [char_of (48 + n)]
      else decimal (n div 10) @ [char_of (48 + n mod 10)])"

definition LINE_init_mtx :: nat where
  "LINE_init_mtx = 85"

definition init_mtx_message :: "cfg \<Rightarrow> string" where
  "init_mtx_message c =
     ''Failed to initialize the mutex!'' @ [CHR 0x0A] @
     ''File: '' @ FILE c @ ''   Line: '' @ decimal LINE_init_mtx @ [CHR 0x0A]"

text \<open>Lines 83-88.  \<^verbatim>\<open>exit\<close> does not return: the state it leaves has \<open>exited\<close> set.\<close>

definition init_mtx :: "cfg \<Rightarrow> tid \<Rightarrow> gstate \<Rightarrow> gstate" where
  "init_mtx c t g =
     (if \<not> mtx_init_succeeds c then
        exit_process t EXIT_FAILURE
          (fprintf_stderr t (init_mtx_message c) (log_call t (MTX_INIT False) g))
      else log_call t (MTX_INIT True) (g\<lparr>global_lock_lock_mutex := Unlocked\<rparr>))"

text \<open>
  \<^verbatim>\<open>call_once\<close> runs the function when the flag is still \<^verbatim>\<open>ONCE_FLAG_INIT\<close> and completes
  the flag when the function has returned; every other call only returns.
\<close>

definition call_once :: "tid \<Rightarrow> (tid \<Rightarrow> gstate \<Rightarrow> gstate) \<Rightarrow> gstate \<Rightarrow> gstate" where
  "call_once t f g =
     (if mtx_init_once g then log_call t CALL_ONCE g
      else (let g' = f t (log_call t CALL_ONCE g)
            in if exited g' = None then g'\<lparr>mtx_init_once := True\<rparr> else g'))"

text \<open>Lines 99-103.\<close>

definition InitCriticalSection :: "tid \<Rightarrow> gstate \<Rightarrow> bool \<times> gstate" where
  "InitCriticalSection t g =
     (True, log_call t INITIALIZE_CRITICAL_SECTION (g\<lparr>global_lock_lock_cs := Unlocked\<rparr>))"

text \<open>
  \<^verbatim>\<open>InitOnceExecuteOnce\<close> runs the callback when the \<^verbatim>\<open>INIT_ONCE\<close> is still in its static
  state and completes it when the callback has returned \<^verbatim>\<open>TRUE\<close>.
\<close>

definition InitOnceExecuteOnce ::
  "tid \<Rightarrow> (tid \<Rightarrow> gstate \<Rightarrow> bool \<times> gstate) \<Rightarrow> gstate \<Rightarrow> gstate" where
  "InitOnceExecuteOnce t f g =
     (if cs_init_once g then log_call t INIT_ONCE_EXECUTE_ONCE g
      else (case f t (log_call t INIT_ONCE_EXECUTE_ONCE g) of
              (ok, g') \<Rightarrow> if ok then g'\<lparr>cs_init_once := True\<rparr> else g'))"

text \<open>Lines 106-113.\<close>

definition is_windows_vista_or_later :: "cfg \<Rightarrow> tid \<Rightarrow> gstate \<Rightarrow> bool \<times> gstate" where
  "is_windows_vista_or_later c t g =
     (case GetVersionEx c of
        None \<Rightarrow> (False, log_call t GET_VERSION_EX g)
      | Some dwMajorVersion \<Rightarrow> (dwMajorVersion \<ge> 6, log_call t GET_VERSION_EX g))"

subsection \<open>\<^verbatim>\<open>SPIN_WAIT\<close> (lines 143-153)\<close>

text \<open>
  The third variant counts a local \<^verbatim>\<open>i\<close> from 0 while \<^verbatim>\<open>i < 1000\<close>; its body is an empty
  \<^verbatim>\<open>asm\<close> statement that only forbids the compiler to move memory accesses across it.
\<close>

function busy_loop :: "tid \<Rightarrow> nat \<Rightarrow> gstate \<Rightarrow> gstate" where
  "busy_loop t i g =
     (if i < 1000 then busy_loop t (i + 1) (log_call t MEMORY_BARRIER g) else g)"
  by pat_completeness auto
termination
  by (relation "measure (\<lambda>(t, i, g). 1000 - i)") auto

definition SPIN_WAIT :: "spin_wait \<Rightarrow> tid \<Rightarrow> gstate \<Rightarrow> gstate" where
  "SPIN_WAIT w t g =
     (case w of
        MM_PAUSE \<Rightarrow> log_call t MM_PAUSE_CALL g
      | SCHED_YIELD \<Rightarrow> log_call t SCHED_YIELD_CALL g
      | BUSY_LOOP \<Rightarrow> busy_loop t 0 g)"

subsection \<open>The lock function (lines 156-187)\<close>

text \<open>
  Threads run the function concurrently, so it is given as the steps a thread takes through
  it: a program point and the state go to the next program point and state.  \<open>Returned\<close>
  is the point after the function's last statement.  A thread that a blocking call does not
  let through stays where it is; a thread that has called \<^verbatim>\<open>exit\<close> stays where it is.
  Line 164 reads \<open>winver_checked\<close>, lines 165-166 call the version check and line 168 writes
  the variable: three steps, since nothing makes them atomic.
\<close>

datatype lock_pc =
    Check_winver
  | Query_winver
  | Set_winver
  | Init_once
  | Acquire
  | Spin
  | Returned

definition lock_entry :: "strategy \<Rightarrow> lock_pc" where
  "lock_entry s =
     (case s of
        C11_THREADS \<Rightarrow> Init_once
      | PTHREAD \<Rightarrow> Acquire
      | WIN32_CS \<Rightarrow> Check_winver
      | STDATOMIC \<Rightarrow> Acquire
      | GCC_ATOMIC_BUILTIN \<Rightarrow> Acquire
      | GCC_SYNC_BUILTIN \<Rightarrow> Acquire)"

text \<open>Lines 158-160.\<close>

definition lock_step_c11 :: "cfg \<Rightarrow> tid \<Rightarrow> lock_pc \<Rightarrow> gstate \<Rightarrow> lock_pc \<times> gstate" where
  "lock_step_c11 c t p g =
     (case p of
        Init_once \<Rightarrow>
          (let g' = call_once t (init_mtx c) g
           in (if exited g' = None then Acquire else Init_once, g'))
      | Acquire \<Rightarrow>
          (case mtx_lock t g of (got, g') \<Rightarrow> (if got then Returned else Acquire, g'))
      | _ \<Rightarrow> (p, g))"

text \<open>Line 162.\<close>

definition lock_step_pthread :: "tid \<Rightarrow> lock_pc \<Rightarrow> gstate \<Rightarrow> lock_pc \<times> gstate" where
  "lock_step_pthread t p g =
     (case p of
        Acquire \<Rightarrow>
          (case pthread_mutex_lock t g of (got, g') \<Rightarrow> (if got then Returned else Acquire, g'))
      | _ \<Rightarrow> (p, g))"

text \<open>Lines 164-173.\<close>

definition lock_step_win32 :: "cfg \<Rightarrow> tid \<Rightarrow> lock_pc \<Rightarrow> gstate \<Rightarrow> lock_pc \<times> gstate" where
  "lock_step_win32 c t p g =
     (case p of
        Check_winver \<Rightarrow> (if winver_checked g = False then Query_winver else Init_once, g)
      | Query_winver \<Rightarrow>
          (case is_windows_vista_or_later c t g of
             (ok, g') \<Rightarrow>
               if \<not> ok then (Query_winver, exit_process t EXIT_FAILURE g')
               else (Set_winver, g'))
      | Set_winver \<Rightarrow> (Init_once, g\<lparr>winver_checked := True\<rparr>)
      | Init_once \<Rightarrow> (Acquire, InitOnceExecuteOnce t InitCriticalSection g)
      | Acquire \<Rightarrow>
          (case EnterCriticalSection t g of (got, g') \<Rightarrow> (if got then Returned else Acquire, g'))
      | _ \<Rightarrow> (p, g))"

text \<open>Lines 175-177.\<close>

definition lock_step_stdatomic :: "cfg \<Rightarrow> tid \<Rightarrow> lock_pc \<Rightarrow> gstate \<Rightarrow> lock_pc \<times> gstate" where
  "lock_step_stdatomic c t p g =
     (case p of
        Acquire \<Rightarrow>
          (case atomic_flag_test_and_set t g of
             (was_set, g') \<Rightarrow> (if was_set then Spin else Returned, g'))
      | Spin \<Rightarrow> (Acquire, SPIN_WAIT (spin c) t g)
      | _ \<Rightarrow> (p, g))"

text \<open>Lines 179-181.\<close>

definition lock_step_gcc_atomic :: "cfg \<Rightarrow> tid \<Rightarrow> lock_pc \<Rightarrow> gstate \<Rightarrow> lock_pc \<times> gstate" where
  "lock_step_gcc_atomic c t p g =
     (case p of
        Acquire \<Rightarrow>
          (case atomic_exchange_n t 1 g of
             (old, g') \<Rightarrow> (if old \<noteq> 0 then Spin else Returned, g'))
      | Spin \<Rightarrow> (Acquire, SPIN_WAIT (spin c) t g)
      | _ \<Rightarrow> (p, g))"

text \<open>Lines 183-185.\<close>

definition lock_step_gcc_sync :: "cfg \<Rightarrow> tid \<Rightarrow> lock_pc \<Rightarrow> gstate \<Rightarrow> lock_pc \<times> gstate" where
  "lock_step_gcc_sync c t p g =
     (case p of
        Acquire \<Rightarrow>
          (case sync_lock_test_and_set t 1 g of
             (old, g') \<Rightarrow> (if old \<noteq> 0 then Spin else Returned, g'))
      | Spin \<Rightarrow> (Acquire, SPIN_WAIT (spin c) t g)
      | _ \<Rightarrow> (p, g))"

definition global_lock_lock_step ::
  "cfg \<Rightarrow> tid \<Rightarrow> lock_pc \<Rightarrow> gstate \<Rightarrow> lock_pc \<times> gstate" where
  "global_lock_lock_step c t p g =
     (case strategy c of
        C11_THREADS \<Rightarrow> lock_step_c11 c t p g
      | PTHREAD \<Rightarrow> lock_step_pthread t p g
      | WIN32_CS \<Rightarrow> lock_step_win32 c t p g
      | STDATOMIC \<Rightarrow> lock_step_stdatomic c t p g
      | GCC_ATOMIC_BUILTIN \<Rightarrow> lock_step_gcc_atomic c t p g
      | GCC_SYNC_BUILTIN \<Rightarrow> lock_step_gcc_sync c t p g)"

subsection \<open>The unlock function (lines 190-204) and \<^verbatim>\<open>global_lock_quit\<close> (lines 207-215)\<close>

text \<open>Each is one library call, or nothing at all.\<close>

definition global_lock_unlock :: "cfg \<Rightarrow> tid \<Rightarrow> gstate \<Rightarrow> gstate" where
  "global_lock_unlock c t g =
     (case strategy c of
        C11_THREADS \<Rightarrow> mtx_unlock t g
      | PTHREAD \<Rightarrow> pthread_mutex_unlock t g
      | WIN32_CS \<Rightarrow> LeaveCriticalSection t g
      | STDATOMIC \<Rightarrow> atomic_flag_clear t g
      | GCC_ATOMIC_BUILTIN \<Rightarrow> atomic_store_n t 0 g
      | GCC_SYNC_BUILTIN \<Rightarrow> sync_lock_release t g)"

definition global_lock_quit :: "cfg \<Rightarrow> tid \<Rightarrow> gstate \<Rightarrow> gstate" where
  "global_lock_quit c t g =
     (case strategy c of
        C11_THREADS \<Rightarrow> mtx_destroy t g
      | PTHREAD \<Rightarrow> pthread_mutex_destroy t g
      | WIN32_CS \<Rightarrow> DeleteCriticalSection t g
      | _ \<Rightarrow> g)"


section \<open>Threads that use the lock\<close>

text \<open>
  Modelled from the spec: the threads that call the lock, which the header does not
  contain.  The caller of the specification's mutual-exclusion property is
  \<^verbatim>\<open>for (i = 0; i < n; ++i) { lock(); counter = counter + 1; unlock(); }\<close>
  run by every thread, each with its own \<^verbatim>\<open>n\<close>.  The increment is not atomic: it reads the
  shared counter into a temporary and writes the temporary plus one back, as two steps.
\<close>

datatype pc =
    In_lock lock_pc
  | Load_counter
  | Store_counter
  | In_unlock
  | Done

record thr =
  t_pc :: pc
  t_i :: nat
  t_n :: nat
  t_tmp :: int

record sys =
  globals :: gstate
  counter :: int
  threads :: "thr list"

definition loop_pc :: "cfg \<Rightarrow> nat \<Rightarrow> nat \<Rightarrow> pc" where
  "loop_pc c i n = (if i < n then In_lock (lock_entry (strategy c)) else Done)"

definition thread_step :: "cfg \<Rightarrow> tid \<Rightarrow> thr \<Rightarrow> gstate \<Rightarrow> int \<Rightarrow> thr \<times> gstate \<times> int" where
  "thread_step c t th g k =
     (case t_pc th of
        In_lock p \<Rightarrow>
          (case global_lock_lock_step c t p g of
             (p', g') \<Rightarrow>
               (th\<lparr>t_pc := (if p' = Returned then Load_counter else In_lock p')\<rparr>, g', k))
      | Load_counter \<Rightarrow> (th\<lparr>t_pc := Store_counter, t_tmp := k\<rparr>, g, k)
      | Store_counter \<Rightarrow> (th\<lparr>t_pc := In_unlock\<rparr>, g, t_tmp th + 1)
      | In_unlock \<Rightarrow>
          (th\<lparr>t_pc := loop_pc c (t_i th + 1) (t_n th), t_i := t_i th + 1\<rparr>,
           global_lock_unlock c t g, k)
      | Done \<Rightarrow> (th, g, k))"

text \<open>
  The scheduler picks the thread that takes the next step.  A thread that does not exist
  takes no step, and nobody takes a step once the process has exited.  A run is a list of
  such picks: every interleaving of the threads is the run of some list.
\<close>

definition step :: "cfg \<Rightarrow> sys \<Rightarrow> tid \<Rightarrow> sys" where
  "step c s t =
     (if t < length (threads s) \<and> exited (globals s) = None then
        (case thread_step c t (threads s ! t) (globals s) (counter s) of
           (th', g', k') \<Rightarrow> \<lparr> globals = g', counter = k', threads = (threads s)[t := th'] \<rparr>)
      else s)"

definition run :: "cfg \<Rightarrow> sys \<Rightarrow> tid list \<Rightarrow> sys" where
  "run c s sched = foldl (step c) s sched"

definition init_thr :: "cfg \<Rightarrow> nat \<Rightarrow> thr" where
  "init_thr c n = \<lparr> t_pc = loop_pc c 0 n, t_i = 0, t_n = n, t_tmp = 0 \<rparr>"

definition init_sys :: "cfg \<Rightarrow> nat list \<Rightarrow> sys" where
  "init_sys c ns = \<lparr> globals = init_gstate c, counter = 0, threads = map (init_thr c) ns \<rparr>"

text \<open>
  A thread is in its critical section from the return of the lock function to the return of
  the unlock function.  The lock is held when the strategy's object says so.
\<close>

definition in_cs :: "pc \<Rightarrow> bool" where
  "in_cs p = (p = Load_counter \<or> p = Store_counter \<or> p = In_unlock)"

definition held :: "cfg \<Rightarrow> gstate \<Rightarrow> bool" where
  "held c g =
     (case strategy c of
        C11_THREADS \<Rightarrow> global_lock_lock_mutex g = Locked
      | PTHREAD \<Rightarrow> global_lock_lock_mutex g = Locked
      | WIN32_CS \<Rightarrow> global_lock_lock_cs g = Locked
      | STDATOMIC \<Rightarrow> global_lock_lock_flag g
      | GCC_ATOMIC_BUILTIN \<Rightarrow> global_lock_lock_int g \<noteq> 0
      | GCC_SYNC_BUILTIN \<Rightarrow> global_lock_lock_int g \<noteq> 0)"

definition all_done :: "sys \<Rightarrow> bool" where
  "all_done s = list_all (\<lambda>th. t_pc th = Done) (threads s)"

definition is_spin :: "strategy \<Rightarrow> bool" where
  "is_spin s = (s = STDATOMIC \<or> s = GCC_ATOMIC_BUILTIN \<or> s = GCC_SYNC_BUILTIN)"

section \<open>What the specification says, and inputs to try it on\<close>

subsection \<open>Strategy selection as the specification words it\<close>

text \<open>
  The capability facts, as the code detects them: the conditions of lines 76, 89, 94 and
  114, and for the two builtins the conditions of lines 121/127 and 123/129 under
  \<^verbatim>\<open>defined (__GNUC__)\<close>.
\<close>

definition gcc_atomic_cond :: "cpp_env \<Rightarrow> bool" where
  "gcc_atomic_cond e =
     (GNUC e \<noteq> None \<and>
      (case has_builtin e of
         Some (has_exchange, has_sync) \<Rightarrow> has_exchange
       | None \<Rightarrow>
           GNUC_MINOR e \<noteq> None \<and>
           (macro_value (GNUC e) > 4
            \<or> (macro_value (GNUC e) = 4 \<and> macro_value (GNUC_MINOR e) \<ge> 7))))"

definition gcc_sync_cond :: "cpp_env \<Rightarrow> bool" where
  "gcc_sync_cond e =
     (GNUC e \<noteq> None \<and>
      (case has_builtin e of
         Some (has_exchange, has_sync) \<Rightarrow> has_sync
       | None \<Rightarrow>
           GNUC_MINOR e \<noteq> None \<and> \<not> clang e \<and>
           (macro_value (GNUC e) = 4 \<and> macro_value (GNUC_MINOR e) \<ge> 1)))"

text \<open>
  The specification's priority order over the six facts, and the selection it describes:
  the first available strategy, and a failed build with a diagnostic when there is none.
\<close>

definition spec_priority_choice ::
  "bool \<Rightarrow> bool \<Rightarrow> bool \<Rightarrow> bool \<Rightarrow> bool \<Rightarrow> bool \<Rightarrow> strategy option" where
  "spec_priority_choice c11_threads posix_threads windows_api c11_atomics exchange_builtin sync_builtin =
     (if c11_threads then Some C11_THREADS
      else if posix_threads then Some PTHREAD
      else if windows_api then Some WIN32_CS
      else if c11_atomics then Some STDATOMIC
      else if exchange_builtin then Some GCC_ATOMIC_BUILTIN
      else if sync_builtin then Some GCC_SYNC_BUILTIN
      else None)"

definition spec_selection :: "cpp_env \<Rightarrow> diagnostic + strategy" where
  "spec_selection e =
     (case spec_priority_choice (c11_threads_cond e) (pthread_cond e) (WIN32 e) (stdatomic_cond e)
             (gcc_atomic_cond e) (gcc_sync_cond e) of
        Some s \<Rightarrow> Inr s
      | None \<Rightarrow> Inl no_lock_diagnostic)"

text \<open>The specification's secondary probe for the spin-wait.\<close>

definition spec_spin_probe :: "bool \<Rightarrow> bool \<Rightarrow> spin_wait" where
  "spec_spin_probe x86_target priority_scheduling =
     (if x86_target then MM_PAUSE else if priority_scheduling then SCHED_YIELD else BUSY_LOOP)"

text \<open>The two scope values the specification accepts.\<close>

definition spec_scope_accepted :: "string \<Rightarrow> bool" where
  "spec_scope_accepted s = (s = ''static'' \<or> s = [])"

subsection \<open>Build configurations\<close>

definition base_env :: cpp_env where
  "base_env =
     \<lparr> GLOBAL_LOCK_FUNC_NAME = None, GLOBAL_UNLOCK_FUNC_NAME = None,
       GLOBAL_LOCK_FUNC_SCOPE = None, GNUC = None, GNUC_MINOR = None, clang = False,
       has_builtin = None, WIN32 = False, WIN32_WINNT = None, STDC_VERSION = None,
       STDC_NO_THREADS = False, STDC_NO_ATOMICS = False, POSIX_THREADS = None,
       POSIX_PRIORITY_SCHEDULING = False, x86_64 = False, amd64 = False, M_X64 = False,
       i386 = False, M_IX86 = False \<rparr>"

text \<open>
  A C17 compiler for Windows with \<^verbatim>\<open><threads.h>\<close>, where nothing defined
  \<^verbatim>\<open>_WIN32_WINNT\<close> before the header was included.
\<close>

definition msvc_c17_env :: cpp_env where
  "msvc_c17_env = base_env\<lparr>WIN32 := True, STDC_VERSION := Some 201710, M_X64 := True\<rparr>"

text \<open>A C99 build on a POSIX system; the second one asks for \<^verbatim>\<open>extern\<close> functions.\<close>

definition posix_c99_env :: cpp_env where
  "posix_c99_env =
     base_env\<lparr>STDC_VERSION := Some 199901, POSIX_THREADS := Some 200809,
              POSIX_PRIORITY_SCHEDULING := True, x86_64 := True\<rparr>"

definition extern_scope_env :: cpp_env where
  "extern_scope_env = posix_c99_env\<lparr>GLOBAL_LOCK_FUNC_SCOPE := Some ''extern''\<rparr>"

text \<open>GCC 4.4 for a bare ARM target: no threads, no C11, no \<^verbatim>\<open>__has_builtin\<close>.\<close>

definition bare_arm_gcc44_env :: cpp_env where
  "bare_arm_gcc44_env = base_env\<lparr>GNUC := Some 4, GNUC_MINOR := Some 4\<rparr>"

subsection \<open>Reading the log of library calls\<close>

text \<open>The calls one \<^verbatim>\<open>SPIN_WAIT()\<close> makes.\<close>

definition spin_wait_calls :: "spin_wait \<Rightarrow> call list" where
  "spin_wait_calls w =
     (case w of
        MM_PAUSE \<Rightarrow> [MM_PAUSE_CALL]
      | SCHED_YIELD \<Rightarrow> [SCHED_YIELD_CALL]
      | BUSY_LOOP \<Rightarrow> replicate 1000 MEMORY_BARRIER)"

text \<open>Calls that guard or perform the construction of the lock object.\<close>

definition is_init_call :: "call \<Rightarrow> bool" where
  "is_init_call x =
     (x = CALL_ONCE \<or> x = MTX_INIT True \<or> x = MTX_INIT False
      \<or> x = INIT_ONCE_EXECUTE_ONCE \<or> x = INITIALIZE_CRITICAL_SECTION)"

text \<open>Calls that construct the lock object: the body of the one-time initialiser.\<close>

definition is_construction :: "call \<Rightarrow> bool" where
  "is_construction x =
     (x = MTX_INIT True \<or> x = MTX_INIT False \<or> x = INITIALIZE_CRITICAL_SECTION)"

definition constructions :: "gstate \<Rightarrow> nat" where
  "constructions g = length (filter (\<lambda>tc. is_construction (snd tc)) (calls g))"

text \<open>Calls that try to take the lock.\<close>

definition is_acquire_call :: "call \<Rightarrow> bool" where
  "is_acquire_call x =
     (case x of
        MTX_LOCK \<Rightarrow> True
      | PTHREAD_MUTEX_LOCK \<Rightarrow> True
      | ENTER_CRITICAL_SECTION \<Rightarrow> True
      | ATOMIC_FLAG_TEST_AND_SET b \<Rightarrow> True
      | ATOMIC_EXCHANGE_N v \<Rightarrow> True
      | SYNC_LOCK_TEST_AND_SET v \<Rightarrow> True
      | _ \<Rightarrow> False)"

subsection \<open>A thread alone inside the lock function\<close>

text \<open>\<open>n\<close> steps of one thread through the lock function, nobody else running.\<close>

primrec lock_run :: "cfg \<Rightarrow> tid \<Rightarrow> nat \<Rightarrow> lock_pc \<times> gstate \<Rightarrow> lock_pc \<times> gstate" where
  "lock_run c t 0 pg = pg"
| "lock_run c t (Suc n) pg =
     lock_run c t n (global_lock_lock_step c t (fst pg) (snd pg))"

subsection \<open>Run-time configurations\<close>

definition c11_cfg :: cfg where
  "c11_cfg =
     \<lparr> strategy = C11_THREADS, spin = BUSY_LOOP, mtx_init_succeeds = True,
       GetVersionEx = None, FILE = ''global_lock.h'' \<rparr>"

definition c11_failing_cfg :: cfg where
  "c11_failing_cfg = c11_cfg\<lparr>mtx_init_succeeds := False\<rparr>"

definition pthread_cfg :: cfg where
  "pthread_cfg = c11_cfg\<lparr>strategy := PTHREAD\<rparr>"

definition win10_cfg :: cfg where
  "win10_cfg = c11_cfg\<lparr>strategy := WIN32_CS, GetVersionEx := Some 10\<rparr>"

definition winxp_cfg :: cfg where
  "winxp_cfg = c11_cfg\<lparr>strategy := WIN32_CS, GetVersionEx := Some 5\<rparr>"

definition stdatomic_cfg :: cfg where
  "stdatomic_cfg = c11_cfg\<lparr>strategy := STDATOMIC, spin := MM_PAUSE\<rparr>"

definition gcc_atomic_cfg :: cfg where
  "gcc_atomic_cfg = c11_cfg\<lparr>strategy := GCC_ATOMIC_BUILTIN, spin := SCHED_YIELD\<rparr>"

definition gcc_sync_cfg :: cfg where
  "gcc_sync_cfg = c11_cfg\<lparr>strategy := GCC_SYNC_BUILTIN, spin := BUSY_LOOP\<rparr>"


subsection \<open>The calls a step has added to the log\<close>

definition new_calls :: "gstate \<Rightarrow> gstate \<Rightarrow> (tid \<times> call) list" where
  "new_calls g g' = drop (length (calls g)) (calls g')"


subsection \<open>Invariants of a run\<close>

text \<open>The increments a thread has stored into the counter so far.\<close>

definition increments :: "thr \<Rightarrow> int" where
  "increments th = int (t_i th) + (if t_pc th = In_unlock then 1 else 0)"

text \<open>
  A lock object that the once-guard has not initialised yet has not been constructed by
  anybody else.
\<close>

definition once_guards :: "cfg \<Rightarrow> gstate \<Rightarrow> bool" where
  "once_guards c g =
     (case strategy c of
        C11_THREADS \<Rightarrow> mtx_init_once g \<or> global_lock_lock_mutex g = Unconstructed
      | WIN32_CS \<Rightarrow> cs_init_once g \<or> global_lock_lock_cs g = Unconstructed
      | _ \<Rightarrow> True)"

text \<open>
  The invariant behind mutual exclusion: at most one thread is in its critical section,
  the lock is held exactly when one is, the counter is the sum of the increments stored so
  far, a thread about to store has read the current counter, and a thread is done exactly
  when it has made all its iterations.
\<close>

definition thread_ok :: "int \<Rightarrow> thr \<Rightarrow> bool" where
  "thread_ok k th =
     (t_pc th \<noteq> In_lock Returned
      \<and> (t_pc th = Store_counter \<longrightarrow> t_tmp th = k)
      \<and> (if t_pc th = Done then t_i th = t_n th else t_i th < t_n th))"

definition lock_inv :: "cfg \<Rightarrow> sys \<Rightarrow> bool" where
  "lock_inv c s =
     ((\<forall>t < length (threads s). \<forall>u < length (threads s).
          in_cs (t_pc (threads s ! t)) \<and> in_cs (t_pc (threads s ! u)) \<longrightarrow> t = u)
      \<and> held c (globals s) = (\<exists>t < length (threads s). in_cs (t_pc (threads s ! t)))
      \<and> counter s = sum_list (map increments (threads s))
      \<and> (\<forall>t < length (threads s). thread_ok (counter s) (threads s ! t))
      \<and> once_guards c (globals s))"


subsection \<open>Lazy initialisation\<close>

text \<open>
  The strategies whose lock object is constructed at run time, their once-flag and their
  lock object.
\<close>

definition lazily_initialised :: "strategy \<Rightarrow> bool" where
  "lazily_initialised s = (s = C11_THREADS \<or> s = WIN32_CS)"

definition once_flag :: "cfg \<Rightarrow> gstate \<Rightarrow> bool" where
  "once_flag c g =
     (case strategy c of
        C11_THREADS \<Rightarrow> mtx_init_once g
      | WIN32_CS \<Rightarrow> cs_init_once g
      | _ \<Rightarrow> False)"

definition lock_object :: "cfg \<Rightarrow> gstate \<Rightarrow> resource" where
  "lock_object c g =
     (case strategy c of
        WIN32_CS \<Rightarrow> global_lock_lock_cs g
      | _ \<Rightarrow> global_lock_lock_mutex g)"

definition ready :: "resource \<Rightarrow> bool" where
  "ready r = (r = Unlocked \<or> r = Locked)"

text \<open>
  A thread is past the initialisation when it is at the acquisition of the lock function,
  in its critical section, or in a later iteration.
\<close>

definition past_init :: "thr \<Rightarrow> bool" where
  "past_init th = (t_pc th = In_lock Acquire \<or> in_cs (t_pc th) \<or> 0 < t_i th)"

text \<open>
  The state of the initialisation: no library call was made outside its contract; once the
  flag is set the object has been constructed exactly once and is ready; before that it is
  unconstructed, and no construction has run unless the process has exited in it.
\<close>

definition init_ok :: "cfg \<Rightarrow> gstate \<Rightarrow> bool" where
  "init_ok c g =
     (\<not> contract_broken g
      \<and> (strategy c = PTHREAD \<longrightarrow> ready (global_lock_lock_mutex g))
      \<and> (lazily_initialised (strategy c) \<longrightarrow>
           (if once_flag c g then constructions g = 1 \<and> ready (lock_object c g)
            else lock_object c g = Unconstructed \<and> constructions g \<le> 1
                 \<and> (exited g = None \<longrightarrow> constructions g = 0))))"

definition init_inv :: "cfg \<Rightarrow> sys \<Rightarrow> bool" where
  "init_inv c s =
     (init_ok c (globals s)
      \<and> (lazily_initialised (strategy c) \<longrightarrow>
           (\<forall>t < length (threads s). past_init (threads s ! t) \<longrightarrow> once_flag c (globals s))))"


subsection \<open>Schedules\<close>

text \<open>
  Two threads that contend for the lock: thread 1 finds it taken twice before thread 0
  releases it, and so on in turns.
\<close>

definition contended_schedule :: "tid list" where
  "contended_schedule =
     [0, 1, 0, 1, 1, 0, 1, 0, 1, 1, 0, 1, 0, 1, 1, 0, 1, 0, 1, 1, 1, 1, 0, 0, 0, 0, 0]"

text \<open>Two threads in turns, and two threads one after the other.\<close>

definition round_robin :: "tid list" where
  "round_robin = concat (replicate 20 [0, 1])"

definition one_after_the_other :: "tid list" where
  "one_after_the_other = replicate 16 0 @ replicate 16 1"

text \<open>Two threads that make their first call of the lock function at the same time.\<close>

definition racing_schedule :: "tid list" where
  "racing_schedule = [0, 1, 0, 1, 0, 1, 0, 1, 0, 1, 1, 1, 0, 0, 0, 0, 1, 1, 0, 0]"


section \<open>Properties of the build configuration\<close>

lemma gcc_builtin_is_spin: "gcc_builtin e = Some s \<Longrightarrow> is_spin s"
  by (auto simp: gcc_builtin_def is_spin_def split: option.splits if_splits)

lemma select_strategy_is_spin:
  "select_strategy e = Inr s \<Longrightarrow>
     is_spin s = (\<not> c11_threads_cond e \<and> \<not> pthread_cond e \<and> \<not> WIN32 e)"
  by (auto simp: select_strategy_def is_spin_def dest: gcc_builtin_is_spin
      split: if_splits option.splits)

lemma select_strategy_scope:
  "select_strategy (e\<lparr>GLOBAL_LOCK_FUNC_SCOPE := s\<rparr>) = select_strategy e"
proof -
  let ?e = "e\<lparr>GLOBAL_LOCK_FUNC_SCOPE := s\<rparr>"
  have "winnt_too_old ?e = winnt_too_old e" by (simp add: winnt_too_old_def)
  moreover have "c11_threads_cond ?e = c11_threads_cond e"
    by (simp add: c11_threads_cond_def stdc11_def)
  moreover have "pthread_cond ?e = pthread_cond e" by (simp add: pthread_cond_def)
  moreover have "stdatomic_cond ?e = stdatomic_cond e"
    by (simp add: stdatomic_cond_def stdc11_def)
  moreover have "gcc_builtin ?e = gcc_builtin e"
    by (auto simp: gcc_builtin_def split: option.splits)
  ultimately show ?thesis by (simp add: select_strategy_def)
qed

lemma select_strategy_msvc_c17: "select_strategy msvc_c17_env = Inl vista_diagnostic"
  by (simp add: select_strategy_def winnt_too_old_def msvc_c17_env_def base_env_def)

lemma spec_selection_msvc_c17: "spec_selection msvc_c17_env = Inr C11_THREADS"
  by (simp add: spec_selection_def spec_priority_choice_def c11_threads_cond_def stdc11_def
      macro_value_def msvc_c17_env_def base_env_def)

lemma select_strategy_posix_c99: "select_strategy posix_c99_env = Inr PTHREAD"
  by (simp add: select_strategy_def winnt_too_old_def c11_threads_cond_def stdc11_def
      pthread_cond_def macro_value_def posix_c99_env_def base_env_def)

lemma select_strategy_bare_arm: "select_strategy bare_arm_gcc44_env = Inr GCC_SYNC_BUILTIN"
  by (simp add: select_strategy_def winnt_too_old_def c11_threads_cond_def stdc11_def
      pthread_cond_def stdatomic_cond_def gcc_builtin_def macro_value_def
      bare_arm_gcc44_env_def base_env_def)

lemma select_strategy_base: "select_strategy base_env = Inl no_lock_diagnostic"
  by (simp add: select_strategy_def winnt_too_old_def c11_threads_cond_def stdc11_def
      pthread_cond_def stdatomic_cond_def base_env_def)

text \<open>
  \<^bold>\<open>C2\<close>, as the specification states it: the six capability facts alone decide the build, by the
  priority order.  It fails on a Windows target where \<^verbatim>\<open>_WIN32_WINNT\<close> is not defined:
  C11 threads are present, so the priority order selects the C11 mutex, but line 66 has
  already stopped the build.
\<close>

theorem strategy_selection_counterexample:
  "c11_threads_cond msvc_c17_env
   \<and> spec_selection msvc_c17_env = Inr C11_THREADS
   \<and> select_strategy msvc_c17_env = Inl vista_diagnostic"
  by (simp add: select_strategy_msvc_c17 spec_selection_msvc_c17)
     (simp add: c11_threads_cond_def stdc11_def macro_value_def msvc_c17_env_def base_env_def)

text \<open>
  \<^bold>\<open>C2\<close>, amended: when \<^verbatim>\<open>_WIN32\<close> is defined and \<^verbatim>\<open>_WIN32_WINNT\<close> is undefined or below
  \<^verbatim>\<open>0x0600\<close>, the build fails with the Windows Vista diagnostic whatever else is
  available.  In every other configuration exactly one strategy is selected, the first
  available one in the priority order C11 mutex, POSIX mutex, Windows critical section,
  atomic flag, atomic-exchange builtin, lock-test-and-set builtin, and when none of the six
  is available the build fails with the diagnostic of lines 136 and 139.
\<close>

theorem strategy_selection_after_winnt_gate:
  "select_strategy e = (if winnt_too_old e then Inl vista_diagnostic else spec_selection e)"
  by (auto simp: select_strategy_def spec_selection_def spec_priority_choice_def gcc_builtin_def
       gcc_atomic_cond_def gcc_sync_cond_def split: option.splits)

theorem strategy_selection_after_winnt_gate_witness:
  "\<not> winnt_too_old bare_arm_gcc44_env
   \<and> spec_selection bare_arm_gcc44_env = Inr GCC_SYNC_BUILTIN
   \<and> \<not> winnt_too_old base_env
   \<and> spec_selection base_env = Inl no_lock_diagnostic"
proof -
  have a: "\<not> winnt_too_old bare_arm_gcc44_env"
    by (simp add: winnt_too_old_def bare_arm_gcc44_env_def base_env_def)
  have b: "\<not> winnt_too_old base_env"
    by (simp add: winnt_too_old_def base_env_def)
  from a strategy_selection_after_winnt_gate [of bare_arm_gcc44_env]
  have "spec_selection bare_arm_gcc44_env = Inr GCC_SYNC_BUILTIN"
    by (simp add: select_strategy_bare_arm)
  moreover from b strategy_selection_after_winnt_gate [of base_env]
  have "spec_selection base_env = Inl no_lock_diagnostic"
    by (simp add: select_strategy_base)
  ultimately show ?thesis using a b by simp
qed

text \<open>
  \<^bold>\<open>C10\<close>, as the specification states it: every scope value other than \<^verbatim>\<open>static\<close> and blank makes
  the build fail.  It fails for \<^verbatim>\<open>extern\<close>: the header raises no diagnostic and defines
  \<^verbatim>\<open>extern void global_lock_lock (void)\<close>, a definition C accepts.
\<close>

theorem scope_extern_counterexample:
  "\<not> spec_scope_accepted (func_scope extern_scope_env)
   \<and> preprocess extern_scope_env =
       Inr \<lparr> tu_strategy = PTHREAD, tu_spin_wait = None,
             tu_lock_decl = ''extern void global_lock_lock (void)'',
             tu_unlock_decl = ''extern void global_lock_unlock (void)'' \<rparr>"
  by (simp add: spec_scope_accepted_def func_scope_def extern_scope_env_def preprocess_def
      select_strategy_scope select_strategy_posix_c99 lock_func_name_def unlock_func_name_def)
     (simp add: select_spin_wait_def pthread_cond_def macro_value_def posix_c99_env_def
      base_env_def)

text \<open>
  \<^bold>\<open>C10\<close>, amended: the header does not validate \<^verbatim>\<open>GLOBAL_LOCK_FUNC_SCOPE\<close>.  Whether the
  build stops with one of the header's diagnostics does not depend on the macro; when the
  macro is not defined the scope is blank; and the scope's text, whatever it is, is written
  in front of \<^verbatim>\<open>void\<close> in the definitions of the lock and the unlock function.
\<close>

theorem scope_not_validated:
  "(preprocess (e\<lparr>GLOBAL_LOCK_FUNC_SCOPE := s\<rparr>) = Inl d) = (preprocess e = Inl d)
   \<and> func_scope (e\<lparr>GLOBAL_LOCK_FUNC_SCOPE := None\<rparr>) = []
   \<and> func_scope (e\<lparr>GLOBAL_LOCK_FUNC_SCOPE := Some txt\<rparr>) = txt
   \<and> (preprocess e = Inr tu \<longrightarrow>
        tu_lock_decl tu = func_scope e @ '' void '' @ lock_func_name e @ '' (void)''
      \<and> tu_unlock_decl tu = func_scope e @ '' void '' @ unlock_func_name e @ '' (void)'')"
  by (auto simp: preprocess_def select_strategy_scope func_scope_def split: sum.splits)

theorem scope_not_validated_witness:
  "preprocess (posix_c99_env\<lparr>GLOBAL_LOCK_FUNC_SCOPE := Some ''static''\<rparr>) =
     Inr \<lparr> tu_strategy = PTHREAD, tu_spin_wait = None,
           tu_lock_decl = ''static void global_lock_lock (void)'',
           tu_unlock_decl = ''static void global_lock_unlock (void)'' \<rparr>
   \<and> tu_lock_decl \<lparr> tu_strategy = PTHREAD, tu_spin_wait = None,
           tu_lock_decl = ''static void global_lock_lock (void)'',
           tu_unlock_decl = ''static void global_lock_unlock (void)'' \<rparr> =
       func_scope (posix_c99_env\<lparr>GLOBAL_LOCK_FUNC_SCOPE := Some ''static''\<rparr>)
         @ '' void '' @ lock_func_name (posix_c99_env\<lparr>GLOBAL_LOCK_FUNC_SCOPE := Some ''static''\<rparr>)
         @ '' (void)''"
proof -
  let ?e = "posix_c99_env\<lparr>GLOBAL_LOCK_FUNC_SCOPE := Some ''static''\<rparr>"
  let ?tu = "\<lparr> tu_strategy = PTHREAD, tu_spin_wait = None,
           tu_lock_decl = ''static void global_lock_lock (void)'',
           tu_unlock_decl = ''static void global_lock_unlock (void)'' \<rparr>"
  have "select_spin_wait ?e = None"
    by (simp add: select_spin_wait_def pthread_cond_def macro_value_def posix_c99_env_def
        base_env_def)
  then have p: "preprocess ?e = Inr ?tu"
    by (simp add: preprocess_def select_strategy_scope select_strategy_posix_c99
        func_scope_def lock_func_name_def unlock_func_name_def)
       (simp add: posix_c99_env_def base_env_def)
  from p scope_not_validated [where e = ?e and tu = ?tu]
  show ?thesis by blast
qed

section \<open>Properties of the spin-wait\<close>

lemma busy_loop_calls:
  "busy_loop t i g = g\<lparr>calls := calls g @ replicate (1000 - i) (t, MEMORY_BARRIER)\<rparr>"
proof (induction t i g rule: busy_loop.induct)
  case (1 t i g)
  show ?case
  proof (cases "i < 1000")
    case True
    define n where "n = 1000 - (i + 1)"
    have n: "1000 - (i + 1) = n" "1000 - i = Suc n"
      using True by (simp_all add: n_def)
    have "busy_loop t i g = busy_loop t (i + 1) (log_call t MEMORY_BARRIER g)"
      using True by (subst busy_loop.simps) simp
    also have "\<dots> = (log_call t MEMORY_BARRIER g)
        \<lparr>calls := calls (log_call t MEMORY_BARRIER g) @ replicate n (t, MEMORY_BARRIER)\<rparr>"
      using "1.IH" [OF True] unfolding n .
    also have "\<dots> = g\<lparr>calls := calls g @ replicate (Suc n) (t, MEMORY_BARRIER)\<rparr>"
      by (simp add: log_call_def)
    finally show ?thesis unfolding n .
  next
    case False
    then show ?thesis by (subst busy_loop.simps) simp
  qed
qed

lemma SPIN_WAIT_calls:
  "SPIN_WAIT w t g = g\<lparr>calls := calls g @ map (Pair t) (spin_wait_calls w)\<rparr>"
proof (cases w)
  case MM_PAUSE
  then show ?thesis by (simp add: SPIN_WAIT_def spin_wait_calls_def log_call_def)
next
  case SCHED_YIELD
  then show ?thesis by (simp add: SPIN_WAIT_def spin_wait_calls_def log_call_def)
next
  case BUSY_LOOP
  have "busy_loop t 0 g = g\<lparr>calls := calls g @ replicate (1000 - 0) (t, MEMORY_BARRIER)\<rparr>"
    by (rule busy_loop_calls)
  moreover have "map (Pair t) (spin_wait_calls BUSY_LOOP) = replicate (1000 - 0) (t, MEMORY_BARRIER)"
    unfolding spin_wait_calls_def spin_wait.case map_replicate minus_nat.diff_0 ..
  ultimately show ?thesis
    unfolding BUSY_LOOP SPIN_WAIT_def spin_wait.case by (simp only:)
qed

text \<open>
  \<^bold>\<open>C8\<close>: whenever the build selects a spin strategy, the spin-wait is the one the
  secondary probe names (pause on x86 targets, else a scheduler yield when
  \<^verbatim>\<open>_POSIX_PRIORITY_SCHEDULING\<close> is defined, else the busy loop), whichever of the three
  spin strategies it is; no other strategy has a spin-wait.  A spin-wait leaves every
  variable, the exit status, \<^verbatim>\<open>stderr\<close> and the contract flag as they were: all it adds is
  its own calls to the log, which for the busy loop are exactly 1000 memory barriers.
\<close>

theorem spin_wait_probe_and_frame:
  "(preprocess e = Inr tu \<longrightarrow>
      tu_spin_wait tu =
        (if is_spin (tu_strategy tu)
         then Some (spec_spin_probe (is_x86 e) (POSIX_PRIORITY_SCHEDULING e)) else None))
   \<and> SPIN_WAIT w t g = g\<lparr>calls := calls g @ map (Pair t) (spin_wait_calls w)\<rparr>
   \<and> spin_wait_calls BUSY_LOOP = replicate 1000 MEMORY_BARRIER"
proof -
  have "tu_spin_wait tu =
        (if is_spin (tu_strategy tu)
         then Some (spec_spin_probe (is_x86 e) (POSIX_PRIORITY_SCHEDULING e)) else None)"
    if "preprocess e = Inr tu"
    using that
    by (auto simp: preprocess_def select_spin_wait_def spec_spin_probe_def
        dest: select_strategy_is_spin split: sum.splits)
  then show ?thesis
    by (simp add: SPIN_WAIT_calls) (simp add: spin_wait_calls_def)
qed

theorem spin_wait_probe_and_frame_witness:
  "preprocess bare_arm_gcc44_env =
     Inr \<lparr> tu_strategy = GCC_SYNC_BUILTIN, tu_spin_wait = Some BUSY_LOOP,
           tu_lock_decl = '' void global_lock_lock (void)'',
           tu_unlock_decl = '' void global_lock_unlock (void)'' \<rparr>
   \<and> spec_spin_probe (is_x86 bare_arm_gcc44_env) (POSIX_PRIORITY_SCHEDULING bare_arm_gcc44_env)
       = BUSY_LOOP
   \<and> SPIN_WAIT BUSY_LOOP 0 (init_gstate gcc_sync_cfg) =
       (init_gstate gcc_sync_cfg)\<lparr>calls := replicate 1000 (0, MEMORY_BARRIER)\<rparr>"
proof -
  let ?tu = "\<lparr> tu_strategy = GCC_SYNC_BUILTIN, tu_spin_wait = Some BUSY_LOOP,
           tu_lock_decl = '' void global_lock_lock (void)'',
           tu_unlock_decl = '' void global_lock_unlock (void)'' \<rparr>"
  have sw: "select_spin_wait bare_arm_gcc44_env = Some BUSY_LOOP"
    by (simp add: select_spin_wait_def c11_threads_cond_def stdc11_def pthread_cond_def
        is_x86_def bare_arm_gcc44_env_def base_env_def)
  have p: "preprocess bare_arm_gcc44_env = Inr ?tu"
    by (simp add: preprocess_def select_strategy_bare_arm sw func_scope_def lock_func_name_def
        unlock_func_name_def)
       (simp add: bare_arm_gcc44_env_def base_env_def)
  have c: "calls (init_gstate gcc_sync_cfg) = []"
    by (simp add: init_gstate_def)
  note th = spin_wait_probe_and_frame [where e = bare_arm_gcc44_env and tu = ?tu
      and w = BUSY_LOOP and t = 0 and g = "init_gstate gcc_sync_cfg"]
  from th p have "Some BUSY_LOOP =
      Some (spec_spin_probe (is_x86 bare_arm_gcc44_env) (POSIX_PRIORITY_SCHEDULING bare_arm_gcc44_env))"
    by (simp add: is_spin_def)
  moreover from th have "SPIN_WAIT BUSY_LOOP 0 (init_gstate gcc_sync_cfg) =
       (init_gstate gcc_sync_cfg)\<lparr>calls := replicate 1000 (0, MEMORY_BARRIER)\<rparr>"
    by (simp only: c append_Nil map_replicate)
  ultimately show ?thesis using p by simp
qed

section \<open>Properties of the lock, unlock and quit functions\<close>

lemma exited_step: "exited (globals s) \<noteq> None \<Longrightarrow> step c s t = s"
  by (auto simp: step_def)

lemma exited_run: "exited (globals s) \<noteq> None \<Longrightarrow> run c s sched = s"
  by (induction sched) (simp_all add: run_def exited_step)

text \<open>
  \<^bold>\<open>C9\<close>: \<^verbatim>\<open>global_lock_quit\<close> makes exactly one library call on the C11, POSIX and
  Windows strategies, the destruction of the strategy's mutex or critical section, and an
  object that is constructed and not held is destroyed by it and nothing else changes.  On
  each of the three spin strategies it returns the state it was given: no variable, no
  output and no log entry differs.
\<close>

theorem quit_destroys_or_does_nothing:
  "(strategy c = C11_THREADS \<longrightarrow>
      calls (global_lock_quit c t g) = calls g @ [(t, MTX_DESTROY)]
      \<and> (global_lock_lock_mutex g = Unlocked \<longrightarrow>
           global_lock_quit c t g =
             g\<lparr>global_lock_lock_mutex := Destroyed, calls := calls g @ [(t, MTX_DESTROY)]\<rparr>))
   \<and> (strategy c = PTHREAD \<longrightarrow>
      calls (global_lock_quit c t g) = calls g @ [(t, PTHREAD_MUTEX_DESTROY)]
      \<and> (global_lock_lock_mutex g = Unlocked \<longrightarrow>
           global_lock_quit c t g =
             g\<lparr>global_lock_lock_mutex := Destroyed,
                calls := calls g @ [(t, PTHREAD_MUTEX_DESTROY)]\<rparr>))
   \<and> (strategy c = WIN32_CS \<longrightarrow>
      calls (global_lock_quit c t g) = calls g @ [(t, DELETE_CRITICAL_SECTION)]
      \<and> (global_lock_lock_cs g = Unlocked \<longrightarrow>
           global_lock_quit c t g =
             g\<lparr>global_lock_lock_cs := Destroyed,
                calls := calls g @ [(t, DELETE_CRITICAL_SECTION)]\<rparr>))
   \<and> (is_spin (strategy c) \<longrightarrow> global_lock_quit c t g = g)"
  by (auto simp: global_lock_quit_def is_spin_def mtx_destroy_def pthread_mutex_destroy_def
      DeleteCriticalSection_def log_call_def split: resource.splits)

theorem quit_destroys_or_does_nothing_witness:
  "global_lock_quit pthread_cfg 0 (init_gstate pthread_cfg) =
     (init_gstate pthread_cfg)
       \<lparr>global_lock_lock_mutex := Destroyed, calls := [(0, PTHREAD_MUTEX_DESTROY)]\<rparr>
   \<and> global_lock_quit c11_cfg 0
        ((init_gstate c11_cfg)\<lparr>global_lock_lock_mutex := Unlocked, mtx_init_once := True\<rparr>) =
     (init_gstate c11_cfg)
       \<lparr>global_lock_lock_mutex := Destroyed, mtx_init_once := True,
        calls := [(0, MTX_DESTROY)]\<rparr>
   \<and> global_lock_quit win10_cfg 0
        ((init_gstate win10_cfg)\<lparr>global_lock_lock_cs := Unlocked, cs_init_once := True\<rparr>) =
     (init_gstate win10_cfg)
       \<lparr>global_lock_lock_cs := Destroyed, cs_init_once := True,
        calls := [(0, DELETE_CRITICAL_SECTION)]\<rparr>
   \<and> global_lock_quit stdatomic_cfg 0 (init_gstate stdatomic_cfg) = init_gstate stdatomic_cfg"
proof -
  let ?g1 = "(init_gstate c11_cfg)\<lparr>global_lock_lock_mutex := Unlocked, mtx_init_once := True\<rparr>"
  let ?g3 = "(init_gstate win10_cfg)\<lparr>global_lock_lock_cs := Unlocked, cs_init_once := True\<rparr>"
  have a: "strategy pthread_cfg = PTHREAD" "strategy stdatomic_cfg = STDATOMIC"
    "strategy c11_cfg = C11_THREADS" "strategy win10_cfg = WIN32_CS"
    by (simp_all add: pthread_cfg_def stdatomic_cfg_def c11_cfg_def win10_cfg_def)
  have b: "global_lock_lock_mutex (init_gstate pthread_cfg) = Unlocked"
    "calls (init_gstate pthread_cfg) = []"
    "global_lock_lock_mutex ?g1 = Unlocked" "calls ?g1 = []"
    "global_lock_lock_cs ?g3 = Unlocked" "calls ?g3 = []"
    by (simp_all add: init_gstate_def a)
  from quit_destroys_or_does_nothing [of pthread_cfg 0 "init_gstate pthread_cfg"] a b
  have "global_lock_quit pthread_cfg 0 (init_gstate pthread_cfg) =
     (init_gstate pthread_cfg)
       \<lparr>global_lock_lock_mutex := Destroyed, calls := [(0, PTHREAD_MUTEX_DESTROY)]\<rparr>"
    by simp
  moreover
  from quit_destroys_or_does_nothing [of c11_cfg 0 ?g1] a b
  have "global_lock_quit c11_cfg 0 ?g1 =
     (init_gstate c11_cfg)
       \<lparr>global_lock_lock_mutex := Destroyed, mtx_init_once := True,
        calls := [(0, MTX_DESTROY)]\<rparr>"
    by simp
  moreover
  from quit_destroys_or_does_nothing [of win10_cfg 0 ?g3] a b
  have "global_lock_quit win10_cfg 0 ?g3 =
     (init_gstate win10_cfg)
       \<lparr>global_lock_lock_cs := Destroyed, cs_init_once := True,
        calls := [(0, DELETE_CRITICAL_SECTION)]\<rparr>"
    by simp
  moreover
  from quit_destroys_or_does_nothing [of stdatomic_cfg 0 "init_gstate stdatomic_cfg"] a
  have "global_lock_quit stdatomic_cfg 0 (init_gstate stdatomic_cfg) = init_gstate stdatomic_cfg"
    by (simp add: is_spin_def)
  ultimately show ?thesis by simp
qed

lemma lock_step_pthread_cases:
  "lock_step_pthread t p g = (p', g') \<Longrightarrow>
     (g' = g \<and> (p' = p \<or> (p = Acquire \<and> p' = Acquire)))
   \<or> (p = Acquire \<and> p' = Returned \<and> global_lock_lock_mutex g = Unlocked
       \<and> g' = g\<lparr>global_lock_lock_mutex := Locked, calls := calls g @ [(t, PTHREAD_MUTEX_LOCK)]\<rparr>)
   \<or> (p = Acquire \<and> p' = Acquire \<and> g' = g\<lparr>contract_broken := True\<rparr>)"
  by (cases p; cases "global_lock_lock_mutex g")
     (auto simp: lock_step_pthread_def pthread_mutex_lock_def log_call_def)

lemma lock_step_stdatomic_cases:
  "lock_step_stdatomic c t p g = (p', g') \<Longrightarrow>
     (p \<noteq> Acquire \<and> p \<noteq> Spin \<and> p' = p \<and> g' = g)
   \<or> (p = Spin \<and> p' = Acquire \<and> g' = SPIN_WAIT (spin c) t g)
   \<or> (p = Acquire \<and> p' = (if global_lock_lock_flag g then Spin else Returned)
       \<and> g' = g\<lparr>global_lock_lock_flag := True,
               calls := calls g @ [(t, ATOMIC_FLAG_TEST_AND_SET (global_lock_lock_flag g))]\<rparr>)"
  by (cases p) (auto simp: lock_step_stdatomic_def atomic_flag_test_and_set_def log_call_def)

lemma lock_step_gcc_atomic_cases:
  "lock_step_gcc_atomic c t p g = (p', g') \<Longrightarrow>
     (p \<noteq> Acquire \<and> p \<noteq> Spin \<and> p' = p \<and> g' = g)
   \<or> (p = Spin \<and> p' = Acquire \<and> g' = SPIN_WAIT (spin c) t g)
   \<or> (p = Acquire \<and> p' = (if global_lock_lock_int g \<noteq> 0 then Spin else Returned)
       \<and> g' = g\<lparr>global_lock_lock_int := 1,
               calls := calls g @ [(t, ATOMIC_EXCHANGE_N (global_lock_lock_int g))]\<rparr>)"
  by (cases p) (auto simp: lock_step_gcc_atomic_def atomic_exchange_n_def log_call_def)

lemma lock_step_gcc_sync_cases:
  "lock_step_gcc_sync c t p g = (p', g') \<Longrightarrow>
     (p \<noteq> Acquire \<and> p \<noteq> Spin \<and> p' = p \<and> g' = g)
   \<or> (p = Spin \<and> p' = Acquire \<and> g' = SPIN_WAIT (spin c) t g)
   \<or> (p = Acquire \<and> p' = (if global_lock_lock_int g \<noteq> 0 then Spin else Returned)
       \<and> g' = g\<lparr>global_lock_lock_int := 1,
               calls := calls g @ [(t, SYNC_LOCK_TEST_AND_SET (global_lock_lock_int g))]\<rparr>)"
  by (cases p) (auto simp: lock_step_gcc_sync_def sync_lock_test_and_set_def log_call_def)

lemma spin_wait_calls_no_init: "x \<in> set (spin_wait_calls w) \<Longrightarrow> \<not> is_init_call x"
  by (cases w) (auto simp: spin_wait_calls_def is_init_call_def)

lemma spin_wait_no_init:
  "list_all (\<lambda>x. \<not> is_init_call (snd x)) (map (Pair t) (spin_wait_calls w))"
  by (cases w) (simp_all add: spin_wait_calls_def is_init_call_def list_all_iff)

lemma static_strategies_no_init_step:
  assumes "strategy c = PTHREAD \<or> is_spin (strategy c)"
    and "global_lock_lock_step c t p g = (p', g')"
  shows "lock_entry (strategy c) = Acquire
    \<and> calls g' = calls g @ new_calls g g'
    \<and> list_all (\<lambda>x. \<not> is_init_call (snd x)) (new_calls g g')
    \<and> (p = Acquire \<longrightarrow>
         length (new_calls g g') \<le> 1
         \<and> list_all (\<lambda>x. fst x = t \<and> is_acquire_call (snd x)) (new_calls g g'))
    \<and> mtx_init_once g' = mtx_init_once g
    \<and> cs_init_once g' = cs_init_once g
    \<and> (global_lock_lock_mutex g' = Unconstructed) = (global_lock_lock_mutex g = Unconstructed)
    \<and> (p \<noteq> Init_once \<longrightarrow> p' \<noteq> Init_once)"
proof -
  consider "strategy c = PTHREAD" | "strategy c = STDATOMIC" | "strategy c = GCC_ATOMIC_BUILTIN"
    | "strategy c = GCC_SYNC_BUILTIN"
    using assms(1) by (auto simp: is_spin_def)
  then show ?thesis
  proof cases
    case 1
    with assms(2) have "lock_step_pthread t p g = (p', g')"
      by (simp add: global_lock_lock_step_def)
    from lock_step_pthread_cases [OF this] 1 show ?thesis
      by (elim disjE)
         (auto simp: lock_entry_def is_init_call_def is_acquire_call_def new_calls_def)
  next
    case 2
    with assms(2) have "lock_step_stdatomic c t p g = (p', g')"
      by (simp add: global_lock_lock_step_def)
    from lock_step_stdatomic_cases [OF this] 2 spin_wait_no_init [of t "spin c"] show ?thesis
      by (elim disjE)
         (auto simp: lock_entry_def is_init_call_def is_acquire_call_def SPIN_WAIT_calls
           new_calls_def)
  next
    case 3
    with assms(2) have "lock_step_gcc_atomic c t p g = (p', g')"
      by (simp add: global_lock_lock_step_def)
    from lock_step_gcc_atomic_cases [OF this] 3 spin_wait_no_init [of t "spin c"] show ?thesis
      by (elim disjE)
         (auto simp: lock_entry_def is_init_call_def is_acquire_call_def SPIN_WAIT_calls
           new_calls_def)
  next
    case 4
    with assms(2) have "lock_step_gcc_sync c t p g = (p', g')"
      by (simp add: global_lock_lock_step_def)
    from lock_step_gcc_sync_cases [OF this] 4 spin_wait_no_init [of t "spin c"] show ?thesis
      by (elim disjE)
         (auto simp: lock_entry_def is_init_call_def is_acquire_call_def SPIN_WAIT_calls
           new_calls_def)
  qed
qed


lemma entry_step_is_acquisition:
  "(strategy c = PTHREAD \<longrightarrow>
      global_lock_lock_step c t Acquire g =
        (case global_lock_lock_mutex g of
           Unlocked \<Rightarrow>
             (Returned,
              g\<lparr>global_lock_lock_mutex := Locked,
                calls := calls g @ [(t, PTHREAD_MUTEX_LOCK)]\<rparr>)
         | Locked \<Rightarrow> (Acquire, g)
         | _ \<Rightarrow> (Acquire, g\<lparr>contract_broken := True\<rparr>)))
   \<and> (strategy c = STDATOMIC \<longrightarrow>
      global_lock_lock_step c t Acquire g =
        (if global_lock_lock_flag g then Spin else Returned,
         g\<lparr>global_lock_lock_flag := True,
           calls := calls g @ [(t, ATOMIC_FLAG_TEST_AND_SET (global_lock_lock_flag g))]\<rparr>))
   \<and> (strategy c = GCC_ATOMIC_BUILTIN \<longrightarrow>
      global_lock_lock_step c t Acquire g =
        (if global_lock_lock_int g \<noteq> 0 then Spin else Returned,
         g\<lparr>global_lock_lock_int := 1,
           calls := calls g @ [(t, ATOMIC_EXCHANGE_N (global_lock_lock_int g))]\<rparr>))
   \<and> (strategy c = GCC_SYNC_BUILTIN \<longrightarrow>
      global_lock_lock_step c t Acquire g =
        (if global_lock_lock_int g \<noteq> 0 then Spin else Returned,
         g\<lparr>global_lock_lock_int := 1,
           calls := calls g @ [(t, SYNC_LOCK_TEST_AND_SET (global_lock_lock_int g))]\<rparr>))"
  by (auto simp: global_lock_lock_step_def lock_step_pthread_def
      pthread_mutex_lock_def lock_step_stdatomic_def atomic_flag_test_and_set_def
      lock_step_gcc_atomic_def atomic_exchange_n_def lock_step_gcc_sync_def
      sync_lock_test_and_set_def log_call_def split: resource.splits)

lemma acquire_step_logs_one_call:
  assumes "strategy c = PTHREAD \<or> is_spin (strategy c)"
    and "global_lock_lock_step c t Acquire g = (p', g')"
    and "is_spin (strategy c) \<or> global_lock_lock_mutex g = Unlocked"
  shows "length (new_calls g g') = 1"
proof -
  consider "strategy c = PTHREAD" "global_lock_lock_mutex g = Unlocked"
    | "strategy c = STDATOMIC" | "strategy c = GCC_ATOMIC_BUILTIN"
    | "strategy c = GCC_SYNC_BUILTIN"
    using assms(1,3) by (auto simp: is_spin_def)
  then show ?thesis
  proof cases
    case 1
    with entry_step_is_acquisition [of c t g] assms(2) show ?thesis
      by (auto simp: new_calls_def)
  next
    case 2
    with entry_step_is_acquisition [of c t g] assms(2) show ?thesis
      by (auto simp: new_calls_def)
  next
    case 3
    with entry_step_is_acquisition [of c t g] assms(2) show ?thesis
      by (auto simp: new_calls_def)
  next
    case 4
    with entry_step_is_acquisition [of c t g] assms(2) show ?thesis
      by (auto simp: new_calls_def)
  qed
qed

text \<open>
  \<^bold>\<open>C7\<close>: on the POSIX strategy and on the three spin strategies the lock function is
  entered at its acquisition, and the step taken there is the acquisition and nothing
  else.  On the POSIX strategy it is \<^verbatim>\<open>pthread_mutex_lock\<close>: an unlocked mutex is locked,
  the call is logged and the function returns; on a locked mutex the thread stays inside
  the call.  On a spin strategy it is the test-and-set or exchange: the flag is set, the
  call is logged with the value it found, and the function returns when that value was
  clear and goes to the spin-wait otherwise.  So the first step logs exactly one call, an
  acquisition by the stepping thread, unless the thread is blocked on a locked mutex.
  Beyond the first step, no step of the function calls a once-guard or a constructor, the
  once-flags and the constructed-or-not state of the mutex stay as they are, and no step
  leads to the initialisation point.
\<close>

theorem static_strategies_skip_initialisation:
  assumes "strategy c = PTHREAD \<or> is_spin (strategy c)"
    and "global_lock_lock_step c t p g = (p', g')"
  shows "lock_entry (strategy c) = Acquire
    \<and> (strategy c = PTHREAD \<longrightarrow>
      global_lock_lock_step c t Acquire g =
        (case global_lock_lock_mutex g of
           Unlocked \<Rightarrow>
             (Returned,
              g\<lparr>global_lock_lock_mutex := Locked,
                calls := calls g @ [(t, PTHREAD_MUTEX_LOCK)]\<rparr>)
         | Locked \<Rightarrow> (Acquire, g)
         | _ \<Rightarrow> (Acquire, g\<lparr>contract_broken := True\<rparr>)))
    \<and> (strategy c = STDATOMIC \<longrightarrow>
      global_lock_lock_step c t Acquire g =
        (if global_lock_lock_flag g then Spin else Returned,
         g\<lparr>global_lock_lock_flag := True,
           calls := calls g @ [(t, ATOMIC_FLAG_TEST_AND_SET (global_lock_lock_flag g))]\<rparr>))
    \<and> (strategy c = GCC_ATOMIC_BUILTIN \<longrightarrow>
      global_lock_lock_step c t Acquire g =
        (if global_lock_lock_int g \<noteq> 0 then Spin else Returned,
         g\<lparr>global_lock_lock_int := 1,
           calls := calls g @ [(t, ATOMIC_EXCHANGE_N (global_lock_lock_int g))]\<rparr>))
    \<and> (strategy c = GCC_SYNC_BUILTIN \<longrightarrow>
      global_lock_lock_step c t Acquire g =
        (if global_lock_lock_int g \<noteq> 0 then Spin else Returned,
         g\<lparr>global_lock_lock_int := 1,
           calls := calls g @ [(t, SYNC_LOCK_TEST_AND_SET (global_lock_lock_int g))]\<rparr>))
    \<and> (p = Acquire \<and> (is_spin (strategy c) \<or> global_lock_lock_mutex g = Unlocked) \<longrightarrow>
         length (new_calls g g') = 1)
    \<and> calls g' = calls g @ new_calls g g'
    \<and> list_all (\<lambda>x. \<not> is_init_call (snd x)) (new_calls g g')
    \<and> (p = Acquire \<longrightarrow>
         length (new_calls g g') \<le> 1
         \<and> list_all (\<lambda>x. fst x = t \<and> is_acquire_call (snd x)) (new_calls g g'))
    \<and> mtx_init_once g' = mtx_init_once g
    \<and> cs_init_once g' = cs_init_once g
    \<and> (global_lock_lock_mutex g' = Unconstructed) = (global_lock_lock_mutex g = Unconstructed)
    \<and> (p \<noteq> Init_once \<longrightarrow> p' \<noteq> Init_once)"
proof -
  note old = static_strategies_no_init_step [OF assms]
  note entry = entry_step_is_acquisition [of c t g]
  have one: "length (new_calls g g') = 1"
    if "p = Acquire" "is_spin (strategy c) \<or> global_lock_lock_mutex g = Unlocked"
    using acquire_step_logs_one_call [OF assms(1) _ that(2)] assms(2) that(1) by simp
  from old entry one show ?thesis
    by (intro conjI impI) (simp_all only: simp_thms)
qed

theorem static_strategies_skip_initialisation_witness:
  "lock_entry (strategy pthread_cfg) = Acquire
   \<and> lock_entry (strategy stdatomic_cfg) = Acquire
   \<and> lock_entry (strategy gcc_atomic_cfg) = Acquire
   \<and> lock_entry (strategy gcc_sync_cfg) = Acquire
   \<and> global_lock_lock_step pthread_cfg 0 Acquire (init_gstate pthread_cfg) =
     (Returned,
      (init_gstate pthread_cfg)
        \<lparr>global_lock_lock_mutex := Locked, calls := [(0, PTHREAD_MUTEX_LOCK)]\<rparr>)
   \<and> global_lock_lock_step stdatomic_cfg 0 Acquire (init_gstate stdatomic_cfg) =
     (Returned,
      (init_gstate stdatomic_cfg)
        \<lparr>global_lock_lock_flag := True, calls := [(0, ATOMIC_FLAG_TEST_AND_SET False)]\<rparr>)
   \<and> global_lock_lock_step gcc_atomic_cfg 0 Acquire (init_gstate gcc_atomic_cfg) =
     (Returned,
      (init_gstate gcc_atomic_cfg)
        \<lparr>global_lock_lock_int := 1, calls := [(0, ATOMIC_EXCHANGE_N 0)]\<rparr>)
   \<and> global_lock_lock_step gcc_sync_cfg 0 Acquire (init_gstate gcc_sync_cfg) =
     (Returned,
      (init_gstate gcc_sync_cfg)
        \<lparr>global_lock_lock_int := 1, calls := [(0, SYNC_LOCK_TEST_AND_SET 0)]\<rparr>)
   \<and> global_lock_lock_step stdatomic_cfg 1 Acquire
       ((init_gstate stdatomic_cfg)\<lparr>global_lock_lock_flag := True\<rparr>) =
     (Spin,
      (init_gstate stdatomic_cfg)
        \<lparr>global_lock_lock_flag := True, calls := [(1, ATOMIC_FLAG_TEST_AND_SET True)]\<rparr>)
   \<and> length (new_calls (init_gstate stdatomic_cfg)
        (snd (global_lock_lock_step stdatomic_cfg 0 Acquire (init_gstate stdatomic_cfg)))) = 1"
proof -
  have a: "strategy pthread_cfg = PTHREAD" "strategy stdatomic_cfg = STDATOMIC"
    "strategy gcc_atomic_cfg = GCC_ATOMIC_BUILTIN" "strategy gcc_sync_cfg = GCC_SYNC_BUILTIN"
    by (simp_all add: pthread_cfg_def stdatomic_cfg_def gcc_atomic_cfg_def gcc_sync_cfg_def
        c11_cfg_def)
  have sp: "is_spin (strategy stdatomic_cfg)" "is_spin (strategy gcc_atomic_cfg)"
    "is_spin (strategy gcc_sync_cfg)"
    by (simp_all add: is_spin_def a)
  have b: "global_lock_lock_mutex (init_gstate pthread_cfg) = Unlocked"
    "global_lock_lock_flag (init_gstate stdatomic_cfg) = False"
    "global_lock_lock_int (init_gstate gcc_atomic_cfg) = 0"
    "global_lock_lock_int (init_gstate gcc_sync_cfg) = 0"
    "\<And>c. calls (init_gstate c) = []"
    by (simp_all add: init_gstate_def a)
  note w1 = static_strategies_skip_initialisation
    [of pthread_cfg 0 Acquire "init_gstate pthread_cfg", OF disjI1 [OF a(1)] prod.collapse [symmetric]]
  note w2 = static_strategies_skip_initialisation
    [of stdatomic_cfg 0 Acquire "init_gstate stdatomic_cfg",
     OF disjI2 [OF sp(1)] prod.collapse [symmetric]]
  note w3 = static_strategies_skip_initialisation
    [of gcc_atomic_cfg 0 Acquire "init_gstate gcc_atomic_cfg",
     OF disjI2 [OF sp(2)] prod.collapse [symmetric]]
  note w4 = static_strategies_skip_initialisation
    [of gcc_sync_cfg 0 Acquire "init_gstate gcc_sync_cfg",
     OF disjI2 [OF sp(3)] prod.collapse [symmetric]]
  note w5 = static_strategies_skip_initialisation
    [of stdatomic_cfg 1 Acquire "(init_gstate stdatomic_cfg)\<lparr>global_lock_lock_flag := True\<rparr>",
     OF disjI2 [OF sp(1)] prod.collapse [symmetric]]
  from w1 a(1) b have p1: "lock_entry (strategy pthread_cfg) = Acquire"
    "global_lock_lock_step pthread_cfg 0 Acquire (init_gstate pthread_cfg) =
     (Returned,
      (init_gstate pthread_cfg)
        \<lparr>global_lock_lock_mutex := Locked, calls := [(0, PTHREAD_MUTEX_LOCK)]\<rparr>)"
    by simp_all
  from w2 a(2) sp b have p2: "lock_entry (strategy stdatomic_cfg) = Acquire"
    "global_lock_lock_step stdatomic_cfg 0 Acquire (init_gstate stdatomic_cfg) =
     (Returned,
      (init_gstate stdatomic_cfg)
        \<lparr>global_lock_lock_flag := True, calls := [(0, ATOMIC_FLAG_TEST_AND_SET False)]\<rparr>)"
    "length (new_calls (init_gstate stdatomic_cfg)
        (snd (global_lock_lock_step stdatomic_cfg 0 Acquire (init_gstate stdatomic_cfg)))) = 1"
    by (simp_all add: new_calls_def)
  from w3 a(3) b have p3: "lock_entry (strategy gcc_atomic_cfg) = Acquire"
    "global_lock_lock_step gcc_atomic_cfg 0 Acquire (init_gstate gcc_atomic_cfg) =
     (Returned,
      (init_gstate gcc_atomic_cfg)
        \<lparr>global_lock_lock_int := 1, calls := [(0, ATOMIC_EXCHANGE_N 0)]\<rparr>)"
    by simp_all
  from w4 a(4) b have p4: "lock_entry (strategy gcc_sync_cfg) = Acquire"
    "global_lock_lock_step gcc_sync_cfg 0 Acquire (init_gstate gcc_sync_cfg) =
     (Returned,
      (init_gstate gcc_sync_cfg)
        \<lparr>global_lock_lock_int := 1, calls := [(0, SYNC_LOCK_TEST_AND_SET 0)]\<rparr>)"
    by simp_all
  from w5 a(2) b have p5: "global_lock_lock_step stdatomic_cfg 1 Acquire
       ((init_gstate stdatomic_cfg)\<lparr>global_lock_lock_flag := True\<rparr>) =
     (Spin,
      (init_gstate stdatomic_cfg)
        \<lparr>global_lock_lock_flag := True, calls := [(1, ATOMIC_FLAG_TEST_AND_SET True)]\<rparr>)"
    by simp
  from p1 p2 p3 p4 p5 show ?thesis
    by (intro conjI)
qed

lemma decimal_LINE_init_mtx: "decimal LINE_init_mtx = ''85''"
  by code_simp

lemma init_mtx_message_text:
  "init_mtx_message c =
     ''Failed to initialize the mutex!'' @ [CHR 0x0A] @
     ''File: '' @ FILE c @ ''   Line: 85'' @ [CHR 0x0A]"
  unfolding init_mtx_message_def decimal_LINE_init_mtx by simp

lemma init_mtx_failure:
  "\<not> mtx_init_succeeds c \<Longrightarrow>
     init_mtx c t g =
       g\<lparr>stderr := stderr g @ init_mtx_message c, exited := Some EXIT_FAILURE,
         calls := calls g @ [(t, MTX_INIT False), (t, FPRINTF_STDERR (init_mtx_message c)),
                             (t, EXIT EXIT_FAILURE)]\<rparr>"
  by (simp add: init_mtx_def exit_process_def fprintf_stderr_def log_call_def)

lemma call_once_failure:
  "\<not> mtx_init_succeeds c \<Longrightarrow> \<not> mtx_init_once g \<Longrightarrow>
     call_once t (init_mtx c) g =
       g\<lparr>stderr := stderr g @ init_mtx_message c, exited := Some EXIT_FAILURE,
         calls := calls g @ [(t, CALL_ONCE), (t, MTX_INIT False),
                             (t, FPRINTF_STDERR (init_mtx_message c)),
                             (t, EXIT EXIT_FAILURE)]\<rparr>"
  by (simp add: call_once_def init_mtx_failure Let_def) (simp add: log_call_def)

text \<open>
  \<^bold>\<open>C4\<close>: on the C11 strategy, when \<^verbatim>\<open>mtx_init\<close> does not return \<^verbatim>\<open>thrd_success\<close>, the
  step of a thread through \<^verbatim>\<open>call_once\<close> with the once-flag still clear writes
  \<^verbatim>\<open>Failed to initialize the mutex!\<close>, the file name and line 85 to \<^verbatim>\<open>stderr\<close> and exits
  with \<^verbatim>\<open>EXIT_FAILURE\<close>.  The mutex stays unconstructed, the once-flag stays clear, the
  thread has not left the initialisation point, and no schedule changes the state any
  more: no thread gets to the acquisition.
\<close>

theorem init_mtx_failure_exits:
  assumes "strategy c = C11_THREADS" and "\<not> mtx_init_succeeds c"
    and "t < length (threads s)" and "t_pc (threads s ! t) = In_lock Init_once"
    and "\<not> mtx_init_once (globals s)" and "exited (globals s) = None"
  shows "stderr (globals (step c s t)) =
           stderr (globals s) @ ''Failed to initialize the mutex!'' @ [CHR 0x0A] @
             ''File: '' @ FILE c @ ''   Line: 85'' @ [CHR 0x0A]
    \<and> exited (globals (step c s t)) = Some EXIT_FAILURE
    \<and> new_calls (globals s) (globals (step c s t)) =
         [(t, CALL_ONCE), (t, MTX_INIT False), (t, FPRINTF_STDERR (init_mtx_message c)),
          (t, EXIT EXIT_FAILURE)]
    \<and> global_lock_lock_mutex (globals (step c s t)) = global_lock_lock_mutex (globals s)
    \<and> mtx_init_once (globals (step c s t)) = False
    \<and> threads (step c s t) = threads s
    \<and> counter (step c s t) = counter s
    \<and> (\<forall>sched. run c (step c s t) sched = step c s t)"
proof -
  let ?g' = "call_once t (init_mtx c) (globals s)"
  have g': "?g' = (globals s)
       \<lparr>stderr := stderr (globals s) @ init_mtx_message c, exited := Some EXIT_FAILURE,
         calls := calls (globals s) @ [(t, CALL_ONCE), (t, MTX_INIT False),
                             (t, FPRINTF_STDERR (init_mtx_message c)),
                             (t, EXIT EXIT_FAILURE)]\<rparr>"
    using assms(2,5) by (rule call_once_failure)
  have ls: "global_lock_lock_step c t Init_once (globals s) = (Init_once, ?g')"
    using assms(1) by (simp add: global_lock_lock_step_def lock_step_c11_def Let_def g')
  have ts: "thread_step c t (threads s ! t) (globals s) (counter s) =
      (threads s ! t, ?g', counter s)"
    using assms(4) by (simp add: thread_step_def ls)
  have st: "step c s t = \<lparr> globals = ?g', counter = counter s, threads = threads s \<rparr>"
    using assms(3,6) by (simp add: step_def ts)
  have ex: "exited (globals (step c s t)) \<noteq> None"
    by (simp add: st g')
  show ?thesis
    using exited_run [OF ex]
    by (simp add: st g' new_calls_def init_mtx_message_text assms(5))
qed


lemma init_sys_simps:
  "globals (init_sys c ns) = init_gstate c"
  "counter (init_sys c ns) = 0"
  "threads (init_sys c ns) = map (init_thr c) ns"
  by (simp_all add: init_sys_def)

lemma init_gstate_simps:
  "global_lock_lock_mutex (init_gstate c) =
     (if strategy c = PTHREAD then Unlocked else Unconstructed)"
  "mtx_init_once (init_gstate c) = False"
  "global_lock_lock_cs (init_gstate c) = Unconstructed"
  "cs_init_once (init_gstate c) = False"
  "winver_checked (init_gstate c) = False"
  "global_lock_lock_flag (init_gstate c) = False"
  "global_lock_lock_int (init_gstate c) = 0"
  "stderr (init_gstate c) = []"
  "exited (init_gstate c) = None"
  "contract_broken (init_gstate c) = False"
  "calls (init_gstate c) = []"
  by (simp_all add: init_gstate_def)

lemma cfg_simps:
  "strategy c11_cfg = C11_THREADS" "mtx_init_succeeds c11_cfg"
  "strategy c11_failing_cfg = C11_THREADS" "\<not> mtx_init_succeeds c11_failing_cfg"
  "FILE c11_failing_cfg = ''global_lock.h''"
  "strategy pthread_cfg = PTHREAD"
  "strategy win10_cfg = WIN32_CS" "GetVersionEx win10_cfg = Some 10"
  "strategy winxp_cfg = WIN32_CS" "GetVersionEx winxp_cfg = Some 5"
  "strategy stdatomic_cfg = STDATOMIC" "spin stdatomic_cfg = MM_PAUSE"
  "strategy gcc_atomic_cfg = GCC_ATOMIC_BUILTIN" "spin gcc_atomic_cfg = SCHED_YIELD"
  "strategy gcc_sync_cfg = GCC_SYNC_BUILTIN" "spin gcc_sync_cfg = BUSY_LOOP"
  by (simp_all add: c11_cfg_def c11_failing_cfg_def pthread_cfg_def win10_cfg_def winxp_cfg_def
      stdatomic_cfg_def gcc_atomic_cfg_def gcc_sync_cfg_def)

theorem init_mtx_failure_exits_witness:
  "stderr (globals (step c11_failing_cfg (init_sys c11_failing_cfg [2]) 0)) =
     ''Failed to initialize the mutex!'' @ [CHR 0x0A] @
     ''File: global_lock.h   Line: 85'' @ [CHR 0x0A]
   \<and> exited (globals (step c11_failing_cfg (init_sys c11_failing_cfg [2]) 0)) = Some EXIT_FAILURE
   \<and> t_pc (threads (step c11_failing_cfg (init_sys c11_failing_cfg [2]) 0) ! 0) =
       In_lock Init_once"
proof -
  let ?c = c11_failing_cfg
  let ?s = "init_sys ?c [2]"
  have th: "threads ?s = [\<lparr> t_pc = In_lock Init_once, t_i = 0, t_n = 2, t_tmp = 0 \<rparr>]"
    by (simp add: init_sys_simps init_thr_def loop_pc_def lock_entry_def cfg_simps)
  have "0 < length (threads ?s)" "t_pc (threads ?s ! 0) = In_lock Init_once"
    "\<not> mtx_init_once (globals ?s)" "exited (globals ?s) = None"
    unfolding th by (simp_all add: init_sys_simps init_gstate_simps)
  from init_mtx_failure_exits [OF cfg_simps(3) cfg_simps(4) this]
  show ?thesis
    by (simp add: th) (simp add: init_sys_simps init_gstate_simps cfg_simps)
qed

lemma winver_query_step:
  "lock_step_win32 c t Query_winver g =
     (if (case GetVersionEx c of None \<Rightarrow> False | Some major \<Rightarrow> 6 \<le> major)
      then (Set_winver, g\<lparr>calls := calls g @ [(t, GET_VERSION_EX)]\<rparr>)
      else (Query_winver,
            g\<lparr>exited := Some EXIT_FAILURE,
              calls := calls g @ [(t, GET_VERSION_EX), (t, EXIT EXIT_FAILURE)]\<rparr>))"
  by (simp add: lock_step_win32_def is_windows_vista_or_later_def exit_process_def log_call_def
      split: option.splits)

text \<open>
  \<^bold>\<open>C3\<close>: the Windows strategy on a system whose \<^verbatim>\<open>GetVersionEx\<close> reports major version
  5.  The first call of the lock function reads \<open>winver_checked\<close>, queries the version and
  exits with \<^verbatim>\<open>EXIT_FAILURE\<close>: the thread never reaches the once-guard or the critical
  section, and the process has written nothing to \<^verbatim>\<open>stderr\<close>.  (The exit of \<open>init_mtx\<close>
  above writes its diagnostic first.)
\<close>

theorem winver_failure_exits_silently:
  "run winxp_cfg (init_sys winxp_cfg [2]) [0, 0] =
     \<lparr> globals = (init_gstate winxp_cfg)
         \<lparr>exited := Some EXIT_FAILURE,
          calls := [(0, GET_VERSION_EX), (0, EXIT EXIT_FAILURE)]\<rparr>,
       counter = 0,
       threads = [\<lparr> t_pc = In_lock Query_winver, t_i = 0, t_n = 2, t_tmp = 0 \<rparr>] \<rparr>
   \<and> stderr (globals (run winxp_cfg (init_sys winxp_cfg [2]) [0, 0])) = []"
proof -
  let ?c = winxp_cfg
  let ?th = "\<lambda>p. \<lparr> t_pc = In_lock p, t_i = 0, t_n = 2, t_tmp = 0 \<rparr>"
  have s0: "init_sys ?c [2] =
      \<lparr> globals = init_gstate ?c, counter = 0, threads = [?th Check_winver] \<rparr>"
    by (simp add: init_sys_def init_thr_def loop_pc_def lock_entry_def cfg_simps)
  have s1: "step ?c \<lparr> globals = init_gstate ?c, counter = 0, threads = [?th Check_winver] \<rparr> 0 =
      \<lparr> globals = init_gstate ?c, counter = 0, threads = [?th Query_winver] \<rparr>"
    by (simp add: step_def thread_step_def global_lock_lock_step_def cfg_simps
        lock_step_win32_def init_gstate_simps)
  have s2: "step ?c \<lparr> globals = init_gstate ?c, counter = 0, threads = [?th Query_winver] \<rparr> 0 =
      \<lparr> globals = (init_gstate ?c)
         \<lparr>exited := Some EXIT_FAILURE,
          calls := [(0, GET_VERSION_EX), (0, EXIT EXIT_FAILURE)]\<rparr>,
        counter = 0, threads = [?th Query_winver] \<rparr>"
    by (simp add: step_def thread_step_def global_lock_lock_step_def cfg_simps
        winver_query_step init_gstate_simps)
  show ?thesis
    by (simp add: run_def s0 s1 s2 init_gstate_simps)
qed

lemma held_calls [simp]: "held c (g\<lparr>calls := x\<rparr>) = held c g"
  by (simp add: held_def split: strategy.splits)

lemma held_SPIN_WAIT [simp]: "held c (SPIN_WAIT w t g) = held c g"
  by (simp add: SPIN_WAIT_calls)

lemma spin_step_Spin:
  "is_spin (strategy c) \<Longrightarrow>
     global_lock_lock_step c t Spin g = (Acquire, SPIN_WAIT (spin c) t g)"
  by (auto simp: is_spin_def global_lock_lock_step_def lock_step_stdatomic_def
      lock_step_gcc_atomic_def lock_step_gcc_sync_def)

lemma spin_step_Acquire:
  assumes "is_spin (strategy c)"
  shows "fst (global_lock_lock_step c t Acquire g) = (if held c g then Spin else Returned)
    \<and> held c (snd (global_lock_lock_step c t Acquire g))
    \<and> length (new_calls g (snd (global_lock_lock_step c t Acquire g))) = 1
    \<and> list_all (\<lambda>x. fst x = t \<and> is_acquire_call (snd x))
         (new_calls g (snd (global_lock_lock_step c t Acquire g)))"
proof -
  consider "strategy c = STDATOMIC" | "strategy c = GCC_ATOMIC_BUILTIN"
    | "strategy c = GCC_SYNC_BUILTIN"
    using assms by (auto simp: is_spin_def)
  then show ?thesis
  proof cases
    case 1
    then show ?thesis
      by (simp add: global_lock_lock_step_def lock_step_stdatomic_def
          atomic_flag_test_and_set_def log_call_def held_def new_calls_def is_acquire_call_def)
  next
    case 2
    then show ?thesis
      by (simp add: global_lock_lock_step_def lock_step_gcc_atomic_def
          atomic_exchange_n_def log_call_def held_def new_calls_def is_acquire_call_def)
  next
    case 3
    then show ?thesis
      by (simp add: global_lock_lock_step_def lock_step_gcc_sync_def
          sync_lock_test_and_set_def log_call_def held_def new_calls_def is_acquire_call_def)
  qed
qed

lemma spin_step_other:
  "is_spin (strategy c) \<Longrightarrow> p \<noteq> Acquire \<Longrightarrow> p \<noteq> Spin \<Longrightarrow>
     global_lock_lock_step c t p g = (p, g)"
  by (cases p)
     (auto simp: is_spin_def global_lock_lock_step_def lock_step_stdatomic_def
      lock_step_gcc_atomic_def lock_step_gcc_sync_def)

lemma spin_returns_only_after_clear:
  assumes "is_spin (strategy c)" and "fst (global_lock_lock_step c t p g) = Returned"
  shows "p = Returned \<or> (p = Acquire \<and> \<not> held c g)"
proof (cases "p = Acquire")
  case True
  with assms spin_step_Acquire [OF assms(1), of t g] show ?thesis
    by (auto split: if_splits)
next
  case False
  show ?thesis
  proof (cases "p = Spin")
    case True
    with assms show ?thesis by (simp add: spin_step_Spin)
  next
    case False
    with \<open>p \<noteq> Acquire\<close> assms show ?thesis by (simp add: spin_step_other)
  qed
qed

lemma spin_never_gives_up:
  assumes "is_spin (strategy c)"
  shows "held c g \<Longrightarrow>
     (fst (lock_run c t n (Acquire, g)) = (if even n then Acquire else Spin)
      \<and> held c (snd (lock_run c t n (Acquire, g))))
   \<and> (fst (lock_run c t n (Spin, g)) = (if even n then Spin else Acquire)
      \<and> held c (snd (lock_run c t n (Spin, g))))"
proof (induction n arbitrary: g)
  case 0
  then show ?case by simp
next
  case (Suc n)
  define g1 where "g1 = snd (global_lock_lock_step c t Acquire g)"
  define g2 where "g2 = SPIN_WAIT (spin c) t g"
  have a: "global_lock_lock_step c t Acquire g = (Spin, g1)" and h1: "held c g1"
    using spin_step_Acquire [OF assms, of t g] Suc.prems
    by (simp_all add: prod_eq_iff g1_def)
  have b: "global_lock_lock_step c t Spin g = (Acquire, g2)" and h2: "held c g2"
    using Suc.prems by (simp_all add: spin_step_Spin [OF assms] g2_def)
  have r1: "lock_run c t (Suc n) (Acquire, g) = lock_run c t n (Spin, g1)"
    by (simp add: a)
  have r2: "lock_run c t (Suc n) (Spin, g) = lock_run c t n (Acquire, g2)"
    by (simp add: b)
  from Suc.IH [OF h1] Suc.IH [OF h2] show ?case
    unfolding r1 r2 by simp
qed

lemma spin_unlock:
  "is_spin (strategy c) \<Longrightarrow>
     \<not> held c (global_lock_unlock c t g)
   \<and> exited (global_lock_unlock c t g) = exited g
   \<and> stderr (global_lock_unlock c t g) = stderr g
   \<and> contract_broken (global_lock_unlock c t g) = contract_broken g
   \<and> length (new_calls g (global_lock_unlock c t g)) = 1"
  by (auto simp: is_spin_def global_lock_unlock_def atomic_flag_clear_def atomic_store_n_def
      sync_lock_release_def log_call_def held_def new_calls_def)

text \<open>
  \<^bold>\<open>C6\<close>: on each spin strategy an attempt is one atomic test-and-set or exchange by the
  calling thread, after which the lock is held; it leads out of the lock function when it
  found the lock clear and to the spin-wait when it found it set.  The spin-wait point runs
  \<^verbatim>\<open>SPIN_WAIT\<close> once and leads back to the attempt.  The function returns from no other
  point than an attempt that found the lock clear.  While the lock stays set, a thread
  alternates between attempt and spin-wait for any number of steps: there is no cap and no
  timeout.  The unlock function clears the lock whatever the state was, and leaves the exit
  status, \<^verbatim>\<open>stderr\<close> and the contract flag as they were.
\<close>

theorem spin_lock_algorithm:
  assumes "is_spin (strategy c)"
  shows "fst (global_lock_lock_step c t Acquire g) = (if held c g then Spin else Returned)
    \<and> held c (snd (global_lock_lock_step c t Acquire g))
    \<and> length (new_calls g (snd (global_lock_lock_step c t Acquire g))) = 1
    \<and> list_all (\<lambda>x. fst x = t \<and> is_acquire_call (snd x))
         (new_calls g (snd (global_lock_lock_step c t Acquire g)))
    \<and> global_lock_lock_step c t Spin g = (Acquire, SPIN_WAIT (spin c) t g)
    \<and> (fst (global_lock_lock_step c t p g) = Returned \<longrightarrow>
          p = Returned \<or> (p = Acquire \<and> \<not> held c g))
    \<and> (held c g \<longrightarrow>
          (\<forall>n. fst (lock_run c t n (Acquire, g)) = (if even n then Acquire else Spin)
               \<and> held c (snd (lock_run c t n (Acquire, g)))))
    \<and> \<not> held c (global_lock_unlock c t g)
    \<and> exited (global_lock_unlock c t g) = exited g
    \<and> stderr (global_lock_unlock c t g) = stderr g
    \<and> contract_broken (global_lock_unlock c t g) = contract_broken g"
  using spin_step_Acquire [OF assms, of t g] spin_step_Spin [OF assms, of t g]
    spin_returns_only_after_clear [OF assms, of t p g] spin_never_gives_up [OF assms, of g t]
    spin_unlock [OF assms, of t g]
  by blast


theorem spin_lock_algorithm_witness:
  "is_spin (strategy stdatomic_cfg)
   \<and> held stdatomic_cfg ((init_gstate stdatomic_cfg)\<lparr>global_lock_lock_flag := True\<rparr>)
   \<and> fst (global_lock_lock_step stdatomic_cfg 1 Acquire
           ((init_gstate stdatomic_cfg)\<lparr>global_lock_lock_flag := True\<rparr>)) = Spin
   \<and> fst (lock_run stdatomic_cfg 1 6
           (Acquire, (init_gstate stdatomic_cfg)\<lparr>global_lock_lock_flag := True\<rparr>)) = Acquire
   \<and> \<not> held stdatomic_cfg
         (global_lock_unlock stdatomic_cfg 1
           ((init_gstate stdatomic_cfg)\<lparr>global_lock_lock_flag := True\<rparr>))
   \<and> fst (global_lock_lock_step stdatomic_cfg 1 Acquire (init_gstate stdatomic_cfg)) = Returned"
proof -
  let ?c = stdatomic_cfg
  let ?g = "(init_gstate ?c)\<lparr>global_lock_lock_flag := True\<rparr>"
  have sp: "is_spin (strategy ?c)"
    by (simp add: is_spin_def cfg_simps)
  have h: "held ?c ?g"
    by (simp add: held_def cfg_simps)
  have nh: "\<not> held ?c (init_gstate ?c)"
    by (simp add: held_def cfg_simps init_gstate_simps)
  from spin_lock_algorithm [OF sp, of 1 ?g] h
  have "fst (global_lock_lock_step ?c 1 Acquire ?g) = Spin"
    and "\<forall>n. fst (lock_run ?c 1 n (Acquire, ?g)) = (if even n then Acquire else Spin)"
    and "\<not> held ?c (global_lock_unlock ?c 1 ?g)"
    by simp_all
  moreover from spin_lock_algorithm [OF sp, of 1 "init_gstate ?c"] nh
  have "fst (global_lock_lock_step ?c 1 Acquire (init_gstate ?c)) = Returned"
    by simp
  ultimately show ?thesis using sp h by simp
qed

section \<open>Mutual exclusion\<close>

subsection \<open>What one step of the lock function does to the lock\<close>

lemma lock_step_c11_abs:
  assumes "lock_step_c11 c t p g = (p', g')" and "p \<noteq> Returned"
    and "mtx_init_once g \<or> global_lock_lock_mutex g = Unconstructed"
    and "exited g = None"
  shows "(mtx_init_once g' \<or> global_lock_lock_mutex g' = Unconstructed)
    \<and> ((p' = Returned \<and> global_lock_lock_mutex g \<noteq> Locked \<and> global_lock_lock_mutex g' = Locked)
       \<or> (p' \<noteq> Returned
          \<and> (global_lock_lock_mutex g' = Locked) = (global_lock_lock_mutex g = Locked)))"
proof (cases p)
  case Init_once
  with assms show ?thesis
    by (auto simp: lock_step_c11_def call_once_def init_mtx_def Let_def log_call_def
        exit_process_def fprintf_stderr_def split: if_splits)
next
  case Acquire
  with assms show ?thesis
    by (cases "global_lock_lock_mutex g")
       (auto simp: lock_step_c11_def mtx_lock_def log_call_def)
qed (use assms in \<open>auto simp: lock_step_c11_def\<close>)

lemma lock_step_pthread_abs:
  assumes "lock_step_pthread t p g = (p', g')" and "p \<noteq> Returned"
  shows "(p' = Returned \<and> global_lock_lock_mutex g \<noteq> Locked \<and> global_lock_lock_mutex g' = Locked)
       \<or> (p' \<noteq> Returned
          \<and> (global_lock_lock_mutex g' = Locked) = (global_lock_lock_mutex g = Locked))"
  using lock_step_pthread_cases [OF assms(1)] assms(2) by auto

lemma lock_step_win32_abs:
  assumes "lock_step_win32 c t p g = (p', g')" and "p \<noteq> Returned"
    and "cs_init_once g \<or> global_lock_lock_cs g = Unconstructed"
  shows "(cs_init_once g' \<or> global_lock_lock_cs g' = Unconstructed)
    \<and> ((p' = Returned \<and> global_lock_lock_cs g \<noteq> Locked \<and> global_lock_lock_cs g' = Locked)
       \<or> (p' \<noteq> Returned
          \<and> (global_lock_lock_cs g' = Locked) = (global_lock_lock_cs g = Locked)))"
proof (cases p)
  case Init_once
  with assms show ?thesis
    by (auto simp: lock_step_win32_def InitOnceExecuteOnce_def InitCriticalSection_def
        log_call_def split: if_splits)
next
  case Acquire
  with assms show ?thesis
    by (cases "global_lock_lock_cs g")
       (auto simp: lock_step_win32_def EnterCriticalSection_def log_call_def)
next
  case Query_winver
  with assms show ?thesis
    by (auto simp: winver_query_step split: if_splits)
qed (use assms in \<open>auto simp: lock_step_win32_def split: if_splits\<close>)

lemma lock_step_abs:
  assumes "global_lock_lock_step c t p g = (p', g')" and "p \<noteq> Returned"
    and "once_guards c g" and "exited g = None"
  shows "once_guards c g'
    \<and> ((p' = Returned \<and> \<not> held c g \<and> held c g') \<or> (p' \<noteq> Returned \<and> held c g' = held c g))"
proof (cases "strategy c")
  case C11_THREADS
  with assms lock_step_c11_abs [of c t p g p' g'] show ?thesis
    by (simp add: global_lock_lock_step_def once_guards_def held_def)
next
  case PTHREAD
  with assms lock_step_pthread_abs [of t p g p' g'] show ?thesis
    by (simp add: global_lock_lock_step_def once_guards_def held_def)
next
  case WIN32_CS
  with assms lock_step_win32_abs [of c t p g p' g'] show ?thesis
    by (simp add: global_lock_lock_step_def once_guards_def held_def)
next
  case STDATOMIC
  then have sp: "is_spin (strategy c)" by (simp add: is_spin_def)
  show ?thesis
  proof (cases "p = Acquire")
    case True
    with assms(1) spin_step_Acquire [OF sp, of t g] STDATOMIC show ?thesis
      by (auto simp: once_guards_def split: if_splits)
  next
    case False
    with assms spin_step_Spin [OF sp, of t g] spin_step_other [OF sp, of p t g] STDATOMIC
    show ?thesis
      by (cases "p = Spin") (auto simp: once_guards_def)
  qed
next
  case GCC_ATOMIC_BUILTIN
  then have sp: "is_spin (strategy c)" by (simp add: is_spin_def)
  show ?thesis
  proof (cases "p = Acquire")
    case True
    with assms(1) spin_step_Acquire [OF sp, of t g] GCC_ATOMIC_BUILTIN show ?thesis
      by (auto simp: once_guards_def split: if_splits)
  next
    case False
    with assms spin_step_Spin [OF sp, of t g] spin_step_other [OF sp, of p t g]
      GCC_ATOMIC_BUILTIN
    show ?thesis
      by (cases "p = Spin") (auto simp: once_guards_def)
  qed
next
  case GCC_SYNC_BUILTIN
  then have sp: "is_spin (strategy c)" by (simp add: is_spin_def)
  show ?thesis
  proof (cases "p = Acquire")
    case True
    with assms(1) spin_step_Acquire [OF sp, of t g] GCC_SYNC_BUILTIN show ?thesis
      by (auto simp: once_guards_def split: if_splits)
  next
    case False
    with assms spin_step_Spin [OF sp, of t g] spin_step_other [OF sp, of p t g]
      GCC_SYNC_BUILTIN
    show ?thesis
      by (cases "p = Spin") (auto simp: once_guards_def)
  qed
qed

lemma unlock_abs:
  assumes "held c g" and "once_guards c g"
  shows "\<not> held c (global_lock_unlock c t g) \<and> once_guards c (global_lock_unlock c t g)"
  using assms
  by (cases "strategy c")
     (auto simp: held_def once_guards_def global_lock_unlock_def mtx_unlock_def
       pthread_mutex_unlock_def LeaveCriticalSection_def atomic_flag_clear_def
       atomic_store_n_def sync_lock_release_def log_call_def)


subsection \<open>What one step of a thread does\<close>

lemma thread_step_abs:
  assumes ts: "thread_step c t th g k = (th', g', k')"
    and ok: "thread_ok k th" and og: "once_guards c g" and ne: "exited g = None"
    and hd: "in_cs (t_pc th) \<longrightarrow> held c g"
  shows "once_guards c g' \<and> thread_ok k' th' \<and> t_n th' = t_n th
    \<and> increments th' - increments th = k' - k
    \<and> (k' \<noteq> k \<longrightarrow> in_cs (t_pc th))
    \<and> ((in_cs (t_pc th') = in_cs (t_pc th) \<and> held c g' = held c g)
       \<or> (\<not> in_cs (t_pc th) \<and> in_cs (t_pc th') \<and> \<not> held c g \<and> held c g')
       \<or> (in_cs (t_pc th) \<and> \<not> in_cs (t_pc th') \<and> \<not> held c g'))"
proof (cases "t_pc th")
  case (In_lock p)
  obtain p' g1 where ls: "global_lock_lock_step c t p g = (p', g1)"
    by (cases "global_lock_lock_step c t p g")
  from ok In_lock have pr: "p \<noteq> Returned"
    by (simp add: thread_ok_def)
  from ts In_lock ls have r: "g' = g1" "k' = k"
    "th' = th\<lparr>t_pc := (if p' = Returned then Load_counter else In_lock p')\<rparr>"
    by (auto simp: thread_step_def)
  from lock_step_abs [OF ls pr og ne] ok In_lock show ?thesis
    by (auto simp: r thread_ok_def increments_def in_cs_def)
next
  case Load_counter
  with ts have r: "g' = g" "k' = k" "th' = th\<lparr>t_pc := Store_counter, t_tmp := k\<rparr>"
    by (auto simp: thread_step_def)
  from ok og Load_counter show ?thesis
    by (simp add: r thread_ok_def increments_def in_cs_def)
next
  case Store_counter
  with ts have r: "g' = g" "k' = t_tmp th + 1" "th' = th\<lparr>t_pc := In_unlock\<rparr>"
    by (auto simp: thread_step_def)
  from ok og Store_counter show ?thesis
    by (simp add: r thread_ok_def increments_def in_cs_def)
next
  case In_unlock
  with ts have r: "g' = global_lock_unlock c t g" "k' = k"
    "th' = th\<lparr>t_pc := loop_pc c (t_i th + 1) (t_n th), t_i := t_i th + 1\<rparr>"
    by (auto simp: thread_step_def)
  from In_unlock hd have "held c g" by (simp add: in_cs_def)
  from unlock_abs [OF this og, of t] ok In_unlock show ?thesis
    by (auto simp: r thread_ok_def increments_def in_cs_def loop_pc_def lock_entry_def
        split: strategy.splits)
next
  case Done
  with ts have r: "g' = g" "k' = k" "th' = th"
    by (auto simp: thread_step_def)
  from ok og show ?thesis
    by (simp add: r)
qed

lemma sum_list_map_update:
  fixes f :: "'a \<Rightarrow> int"
  shows "t < length xs \<Longrightarrow>
    sum_list (map f (xs[t := y])) = sum_list (map f xs) - f (xs ! t) + f y"
  by (induction xs arbitrary: t) (auto split: nat.splits)

lemma thread_ok_outside: "\<not> in_cs (t_pc th) \<Longrightarrow> thread_ok k th \<Longrightarrow> thread_ok k' th"
  by (simp add: thread_ok_def in_cs_def)

lemma lock_inv_step:
  assumes inv: "lock_inv c s"
  shows "lock_inv c (step c s t)"
proof (cases "t < length (threads s) \<and> exited (globals s) = None")
  case False
  then have "step c s t = s" by (auto simp: step_def)
  with inv show ?thesis by simp
next
  case True
  then have tl: "t < length (threads s)" and ne: "exited (globals s) = None"
    by simp_all
  let ?ts = "threads s"
  obtain th' g' k' where
    ts: "thread_step c t (?ts ! t) (globals s) (counter s) = (th', g', k')"
    by (cases "thread_step c t (?ts ! t) (globals s) (counter s)")
  have st: "step c s t = \<lparr> globals = g', counter = k', threads = ?ts[t := th'] \<rparr>"
    using True by (simp add: step_def ts)
  from inv have
    uniq: "\<And>u v. u < length ?ts \<Longrightarrow> v < length ?ts \<Longrightarrow>
       in_cs (t_pc (?ts ! u)) \<Longrightarrow> in_cs (t_pc (?ts ! v)) \<Longrightarrow> u = v"
    and hd: "held c (globals s) = (\<exists>u < length ?ts. in_cs (t_pc (?ts ! u)))"
    and cnt: "counter s = sum_list (map increments ?ts)"
    and oks: "\<And>u. u < length ?ts \<Longrightarrow> thread_ok (counter s) (?ts ! u)"
    and og: "once_guards c (globals s)"
    by (auto simp: lock_inv_def)
  have hdt: "in_cs (t_pc (?ts ! t)) \<longrightarrow> held c (globals s)"
    using hd tl by auto
  from thread_step_abs [OF ts oks [OF tl] og ne hdt] have
    og': "once_guards c g'" and ok': "thread_ok k' th'"
    and inc: "increments th' - increments (?ts ! t) = k' - counter s"
    and kk: "k' \<noteq> counter s \<longrightarrow> in_cs (t_pc (?ts ! t))"
    and rel: "(in_cs (t_pc th') = in_cs (t_pc (?ts ! t)) \<and> held c g' = held c (globals s))
       \<or> (\<not> in_cs (t_pc (?ts ! t)) \<and> in_cs (t_pc th') \<and> \<not> held c (globals s) \<and> held c g')
       \<or> (in_cs (t_pc (?ts ! t)) \<and> \<not> in_cs (t_pc th') \<and> \<not> held c g')"
    by simp_all
  have others: "\<not> in_cs (t_pc (?ts ! u))"
    if "u < length ?ts" "u \<noteq> t" "in_cs (t_pc (?ts ! t)) \<or> \<not> held c (globals s)" for u
    using that uniq [OF that(1) tl] hd by auto
  have 1: "u = v"
    if "u < length ?ts" "v < length ?ts" "in_cs (t_pc (?ts[t := th'] ! u))"
      "in_cs (t_pc (?ts[t := th'] ! v))" for u v
  proof (cases "u = t"; cases "v = t")
    assume "u \<noteq> t" "v \<noteq> t"
    with that uniq show ?thesis by simp
  next
    assume a: "u = t" "v \<noteq> t"
    with that tl have "in_cs (t_pc th')" "in_cs (t_pc (?ts ! v))" by simp_all
    with rel others [OF that(2) a(2)] show ?thesis by auto
  next
    assume a: "u \<noteq> t" "v = t"
    with that tl have "in_cs (t_pc th')" "in_cs (t_pc (?ts ! u))" by simp_all
    with rel others [OF that(1) a(1)] show ?thesis by auto
  qed simp
  have 2: "held c g' = (\<exists>u < length ?ts. in_cs (t_pc (?ts[t := th'] ! u)))"
  proof
    assume h: "held c g'"
    show "\<exists>u < length ?ts. in_cs (t_pc (?ts[t := th'] ! u))"
    proof (cases "in_cs (t_pc th')")
      case True
      with tl show ?thesis by (intro exI [of _ t]) simp
    next
      case False
      with rel h have "held c (globals s)" "\<not> in_cs (t_pc (?ts ! t))" by auto
      with hd obtain u where u: "u < length ?ts" "in_cs (t_pc (?ts ! u))" by auto
      with \<open>\<not> in_cs (t_pc (?ts ! t))\<close> have "u \<noteq> t" by auto
      with u show ?thesis by (intro exI [of _ u]) simp
    qed
  next
    assume "\<exists>u < length ?ts. in_cs (t_pc (?ts[t := th'] ! u))"
    then obtain u where u: "u < length ?ts" "in_cs (t_pc (?ts[t := th'] ! u))" by auto
    show "held c g'"
    proof (cases "u = t")
      case True
      with u tl have "in_cs (t_pc th')" by simp
      with rel hdt show ?thesis by auto
    next
      case False
      with u have iu: "in_cs (t_pc (?ts ! u))" by simp
      with u(1) hd have h: "held c (globals s)" by auto
      from iu others [OF u(1) False] have "\<not> in_cs (t_pc (?ts ! t))" "held c (globals s)"
        using h by auto
      with rel show ?thesis by auto
    qed
  qed
  have 3: "k' = sum_list (map increments (?ts[t := th']))"
    using inc cnt by (simp add: sum_list_map_update [OF tl])
  have 4: "thread_ok k' (?ts[t := th'] ! u)" if "u < length ?ts" for u
  proof (cases "u = t")
    case True
    with tl ok' show ?thesis by simp
  next
    case False
    show ?thesis
    proof (cases "k' = counter s")
      case True
      with False oks [OF that] show ?thesis by simp
    next
      case False
      with kk have "in_cs (t_pc (?ts ! t))" by simp
      with others [OF that \<open>u \<noteq> t\<close>] have "\<not> in_cs (t_pc (?ts ! u))" by simp
      from thread_ok_outside [OF this oks [OF that]] \<open>u \<noteq> t\<close> show ?thesis by simp
    qed
  qed
  show ?thesis
    unfolding lock_inv_def st using 1 2 3 4 og' by simp
qed

lemma lock_inv_run: "lock_inv c s \<Longrightarrow> lock_inv c (run c s sched)"
  by (induction sched arbitrary: s) (simp_all add: run_def lock_inv_step)

lemma init_thr_ok: "thread_ok k (init_thr c n)"
  by (simp add: thread_ok_def init_thr_def loop_pc_def lock_entry_def split: strategy.splits)

lemma init_thr_facts:
  "\<not> in_cs (t_pc (init_thr c n))" "increments (init_thr c n) = 0" "t_n (init_thr c n) = n"
  by (simp_all add: in_cs_def increments_def init_thr_def loop_pc_def)

lemma lock_inv_init: "lock_inv c (init_sys c ns)"
proof -
  have "sum_list (map increments (map (init_thr c) ns)) = 0"
    by (induction ns) (simp_all add: init_thr_facts)
  moreover have "\<not> held c (init_gstate c)"
    by (simp add: held_def init_gstate_simps split: strategy.splits)
  moreover have "once_guards c (init_gstate c)"
    by (simp add: once_guards_def init_gstate_simps split: strategy.splits)
  ultimately show ?thesis
    by (simp add: lock_inv_def init_sys_simps init_thr_ok init_thr_facts)
qed

lemma thread_step_t_n: "t_n (fst (thread_step c t th g k)) = t_n th"
  by (cases "t_pc th") (auto simp: thread_step_def split: prod.splits)

lemma step_t_n: "map t_n (threads (step c s t)) = map t_n (threads s)"
proof (cases "t < length (threads s) \<and> exited (globals s) = None")
  case False
  then show ?thesis by (auto simp: step_def)
next
  case True
  obtain th' g' k' where
    ts: "thread_step c t (threads s ! t) (globals s) (counter s) = (th', g', k')"
    by (cases "thread_step c t (threads s ! t) (globals s) (counter s)")
  from thread_step_t_n [of c t "threads s ! t" "globals s" "counter s"] ts
  have "t_n th' = t_n (threads s ! t)" by simp
  with True show ?thesis
    by (simp add: step_def ts map_update list_update_same_conv)
qed

lemma run_t_n: "map t_n (threads (run c s sched)) = map t_n (threads s)"
  by (induction sched arbitrary: s) (simp_all add: run_def step_t_n)

lemma init_t_n: "map t_n (threads (init_sys c ns)) = ns"
  by (simp add: init_sys_simps init_thr_facts comp_def)

lemma done_counter:
  assumes "lock_inv c s" and "all_done s"
  shows "counter s = int (sum_list (map t_n (threads s)))"
proof -
  have "increments th = int (t_n th)" if "th \<in> set (threads s)" for th
  proof -
    from that obtain u where u: "u < length (threads s)" "threads s ! u = th"
      by (auto simp: in_set_conv_nth)
    from assms(2) that have d: "t_pc th = Done"
      by (simp add: all_done_def list_all_iff)
    from assms(1) u have "thread_ok (counter s) th"
      by (auto simp: lock_inv_def)
    with d show ?thesis
      by (simp add: thread_ok_def increments_def)
  qed
  then have m: "map increments (threads s) = map (\<lambda>th. int (t_n th)) (threads s)"
    by simp
  have i: "sum_list (map (\<lambda>th. int (t_n th)) xs) = int (sum_list (map t_n xs))" for xs
    by (induction xs) simp_all
  have "counter s = sum_list (map increments (threads s))"
    using assms(1) by (simp add: lock_inv_def)
  also have "\<dots> = int (sum_list (map t_n (threads s)))"
    unfolding m by (rule i)
  finally show ?thesis .
qed

text \<open>
  \<^bold>\<open>C1\<close>: any number of threads, each running its own number of iterations of lock,
  increment, unlock, under any strategy and any schedule.  At every moment at most one
  thread is between the return of the lock function and the return of the unlock function,
  and when all threads are done the counter is exactly the sum of the iteration counts: no
  increment is lost.
\<close>

theorem mutual_exclusion_no_lost_updates:
  "(\<forall>t < length ns. \<forall>u < length ns.
       in_cs (t_pc (threads (run c (init_sys c ns) sched) ! t))
       \<and> in_cs (t_pc (threads (run c (init_sys c ns) sched) ! u)) \<longrightarrow> t = u)
   \<and> (all_done (run c (init_sys c ns) sched) \<longrightarrow>
        counter (run c (init_sys c ns) sched) = int (sum_list ns))"
proof -
  let ?s = "run c (init_sys c ns) sched"
  have inv: "lock_inv c ?s"
    by (rule lock_inv_run [OF lock_inv_init])
  have tn: "map t_n (threads ?s) = ns"
    by (simp add: run_t_n init_t_n)
  then have len: "length (threads ?s) = length ns"
    by (metis length_map)
  from inv have "\<forall>t < length (threads ?s). \<forall>u < length (threads ?s).
       in_cs (t_pc (threads ?s ! t)) \<and> in_cs (t_pc (threads ?s ! u)) \<longrightarrow> t = u"
    unfolding lock_inv_def by blast
  moreover have "counter ?s = int (sum_list ns)" if "all_done ?s"
    using done_counter [OF inv that] tn by simp
  ultimately show ?thesis
    unfolding len by blast
qed

theorem mutual_exclusion_no_lost_updates_witness:
  "in_cs (t_pc (threads (run pthread_cfg (init_sys pthread_cfg [2, 2]) [0, 1, 1, 0, 1]) ! 0))
   \<and> \<not> in_cs (t_pc (threads (run pthread_cfg (init_sys pthread_cfg [2, 2]) [0, 1, 1, 0, 1]) ! 1))
   \<and> all_done (run stdatomic_cfg (init_sys stdatomic_cfg [2, 2]) contended_schedule)
   \<and> counter (run stdatomic_cfg (init_sys stdatomic_cfg [2, 2]) contended_schedule) = 4
   \<and> all_done (run c11_cfg (init_sys c11_cfg [2, 2]) round_robin)
   \<and> counter (run c11_cfg (init_sys c11_cfg [2, 2]) round_robin) = 4
   \<and> all_done (run pthread_cfg (init_sys pthread_cfg [2, 2]) round_robin)
   \<and> counter (run pthread_cfg (init_sys pthread_cfg [2, 2]) round_robin) = 4
   \<and> all_done (run win10_cfg (init_sys win10_cfg [2, 2]) round_robin)
   \<and> counter (run win10_cfg (init_sys win10_cfg [2, 2]) round_robin) = 4
   \<and> all_done (run gcc_atomic_cfg (init_sys gcc_atomic_cfg [2, 2]) round_robin)
   \<and> counter (run gcc_atomic_cfg (init_sys gcc_atomic_cfg [2, 2]) round_robin) = 4
   \<and> all_done (run gcc_sync_cfg (init_sys gcc_sync_cfg [2, 2]) one_after_the_other)
   \<and> counter (run gcc_sync_cfg (init_sys gcc_sync_cfg [2, 2]) one_after_the_other) = 4"
proof -
  have i0: "in_cs (t_pc (threads (run pthread_cfg (init_sys pthread_cfg [2, 2]) [0, 1, 1, 0, 1]) ! 0))"
    by code_simp
  have n: "(0::nat) < length [2::nat, 2]" "(1::nat) < length [2::nat, 2]" "(1::nat) \<noteq> 0"
    by simp_all
  note ex = conjunct1 [OF mutual_exclusion_no_lost_updates [of "[2, 2]" pthread_cfg "[0, 1, 1, 0, 1]"]]
  from ex [rule_format, of 1 0] i0 n
  have i1: "\<not> in_cs (t_pc (threads (run pthread_cfg (init_sys pthread_cfg [2, 2]) [0, 1, 1, 0, 1]) ! 1))"
    by auto
  have d1: "all_done (run stdatomic_cfg (init_sys stdatomic_cfg [2, 2]) contended_schedule)"
    by code_simp
  have d2: "all_done (run c11_cfg (init_sys c11_cfg [2, 2]) round_robin)"
    by code_simp
  have d3: "all_done (run pthread_cfg (init_sys pthread_cfg [2, 2]) round_robin)"
    by code_simp
  have d4: "all_done (run win10_cfg (init_sys win10_cfg [2, 2]) round_robin)"
    by code_simp
  have d5: "all_done (run gcc_atomic_cfg (init_sys gcc_atomic_cfg [2, 2]) round_robin)"
    by code_simp
  have d6: "all_done (run gcc_sync_cfg (init_sys gcc_sync_cfg [2, 2]) one_after_the_other)"
    by code_simp
  have s: "int (sum_list [2, 2]) = 4"
    by simp
  from mutual_exclusion_no_lost_updates [of "[2, 2]" stdatomic_cfg contended_schedule] d1
  have c1: "counter (run stdatomic_cfg (init_sys stdatomic_cfg [2, 2]) contended_schedule) = 4"
    unfolding s by blast
  from mutual_exclusion_no_lost_updates [of "[2, 2]" c11_cfg round_robin] d2
  have c2: "counter (run c11_cfg (init_sys c11_cfg [2, 2]) round_robin) = 4"
    unfolding s by blast
  from mutual_exclusion_no_lost_updates [of "[2, 2]" pthread_cfg round_robin] d3
  have c3: "counter (run pthread_cfg (init_sys pthread_cfg [2, 2]) round_robin) = 4"
    unfolding s by blast
  from mutual_exclusion_no_lost_updates [of "[2, 2]" win10_cfg round_robin] d4
  have c4: "counter (run win10_cfg (init_sys win10_cfg [2, 2]) round_robin) = 4"
    unfolding s by blast
  from mutual_exclusion_no_lost_updates [of "[2, 2]" gcc_atomic_cfg round_robin] d5
  have c5: "counter (run gcc_atomic_cfg (init_sys gcc_atomic_cfg [2, 2]) round_robin) = 4"
    unfolding s by blast
  from mutual_exclusion_no_lost_updates [of "[2, 2]" gcc_sync_cfg one_after_the_other] d6
  have c6: "counter (run gcc_sync_cfg (init_sys gcc_sync_cfg [2, 2]) one_after_the_other) = 4"
    unfolding s by blast
  show ?thesis
    using i0 i1 d1 d2 d3 d4 d5 d6 c1 c2 c3 c4 c5 c6 by simp
qed

section \<open>Lazy initialisation\<close>

lemma constructions_append:
  "constructions (g\<lparr>calls := calls g @ xs\<rparr>) =
     constructions g + length (filter (\<lambda>tc. is_construction (snd tc)) xs)"
  by (simp add: constructions_def)

lemma lock_step_c11_init:
  assumes st: "lock_step_c11 c t p g = (p', g')" and s: "strategy c = C11_THREADS"
    and ne: "exited g = None" and ok: "init_ok c g"
    and acq: "p = Acquire \<longrightarrow> once_flag c g"
  shows "init_ok c g' \<and> (once_flag c g \<longrightarrow> once_flag c g')
    \<and> (p' = Acquire \<longrightarrow> once_flag c g') \<and> (p' = Returned \<longrightarrow> p = Acquire \<or> p = Returned)"
proof (cases p)
  case Init_once
  show ?thesis
  proof (cases "mtx_init_once g")
    case True
    with st Init_once ne have "p' = Acquire" "g' = g\<lparr>calls := calls g @ [(t, CALL_ONCE)]\<rparr>"
      by (auto simp: lock_step_c11_def call_once_def log_call_def)
    with ok s True show ?thesis
      by (simp add: init_ok_def once_flag_def lock_object_def lazily_initialised_def
          constructions_append is_construction_def)
  next
    case False
    show ?thesis
    proof (cases "mtx_init_succeeds c")
      case True
      with st Init_once ne False have "p' = Acquire"
        "g' = g\<lparr>global_lock_lock_mutex := Unlocked, mtx_init_once := True,
              calls := calls g @ [(t, CALL_ONCE), (t, MTX_INIT True)]\<rparr>"
        by (auto simp: lock_step_c11_def call_once_def init_mtx_def log_call_def Let_def)
      with ok s False ne show ?thesis
        by (simp add: init_ok_def once_flag_def lock_object_def lazily_initialised_def
            constructions_def is_construction_def ready_def)
    next
      case fails: False
      from st Init_once have "p' = Init_once" "g' = call_once t (init_mtx c) g"
        by (auto simp: lock_step_c11_def Let_def call_once_failure [OF fails False])
      with ok s False ne show ?thesis
        by (simp add: call_once_failure [OF fails False] init_ok_def once_flag_def
            lock_object_def lazily_initialised_def constructions_def is_construction_def)
    qed
  qed
next
  case Acquire
  with acq ok s have "ready (global_lock_lock_mutex g)"
    by (simp add: init_ok_def lazily_initialised_def lock_object_def)
  with st Acquire ok s acq show ?thesis
    by (auto simp: lock_step_c11_def mtx_lock_def log_call_def ready_def init_ok_def
        once_flag_def lock_object_def lazily_initialised_def constructions_def
        is_construction_def)
qed (use st ok in \<open>auto simp: lock_step_c11_def\<close>)

lemma lock_step_win32_init:
  assumes st: "lock_step_win32 c t p g = (p', g')" and s: "strategy c = WIN32_CS"
    and ne: "exited g = None" and ok: "init_ok c g"
    and acq: "p = Acquire \<longrightarrow> once_flag c g"
  shows "init_ok c g' \<and> (once_flag c g \<longrightarrow> once_flag c g')
    \<and> (p' = Acquire \<longrightarrow> once_flag c g') \<and> (p' = Returned \<longrightarrow> p = Acquire \<or> p = Returned)"
proof (cases p)
  case Init_once
  show ?thesis
  proof (cases "cs_init_once g")
    case True
    with st Init_once have "p' = Acquire"
      "g' = g\<lparr>calls := calls g @ [(t, INIT_ONCE_EXECUTE_ONCE)]\<rparr>"
      by (auto simp: lock_step_win32_def InitOnceExecuteOnce_def log_call_def)
    with ok s True show ?thesis
      by (simp add: init_ok_def once_flag_def lock_object_def lazily_initialised_def
          constructions_append is_construction_def)
  next
    case False
    with st Init_once have "p' = Acquire"
      "g' = g\<lparr>global_lock_lock_cs := Unlocked, cs_init_once := True,
            calls := calls g @ [(t, INIT_ONCE_EXECUTE_ONCE), (t, INITIALIZE_CRITICAL_SECTION)]\<rparr>"
      by (auto simp: lock_step_win32_def InitOnceExecuteOnce_def InitCriticalSection_def
          log_call_def)
    with ok s False ne show ?thesis
      by (simp add: init_ok_def once_flag_def lock_object_def lazily_initialised_def
          constructions_def is_construction_def ready_def)
  qed
next
  case Acquire
  with acq ok s have "ready (global_lock_lock_cs g)"
    by (simp add: init_ok_def lazily_initialised_def lock_object_def)
  with st Acquire ok s acq show ?thesis
    by (auto simp: lock_step_win32_def EnterCriticalSection_def log_call_def ready_def
        init_ok_def once_flag_def lock_object_def lazily_initialised_def constructions_def
        is_construction_def)
next
  case Query_winver
  with st ok s show ?thesis
    by (auto simp: winver_query_step init_ok_def once_flag_def lock_object_def
        lazily_initialised_def constructions_def is_construction_def split: if_splits)
next
  case Check_winver
  with st ok show ?thesis
    by (auto simp: lock_step_win32_def split: if_splits)
next
  case Set_winver
  with st ok s show ?thesis
    by (auto simp: lock_step_win32_def init_ok_def once_flag_def lock_object_def
        lazily_initialised_def constructions_def)
qed (use st ok in \<open>auto simp: lock_step_win32_def\<close>)


lemma lock_step_static_init:
  assumes st: "global_lock_lock_step c t p g = (p', g')"
    and s: "\<not> lazily_initialised (strategy c)" and ok: "init_ok c g"
  shows "init_ok c g' \<and> (p' = Returned \<longrightarrow> p = Acquire \<or> p = Returned)"
proof (cases "strategy c")
  case PTHREAD
  with ok have "ready (global_lock_lock_mutex g)"
    by (simp add: init_ok_def)
  with st ok PTHREAD show ?thesis
    by (cases p)
       (auto simp: global_lock_lock_step_def lock_step_pthread_def pthread_mutex_lock_def
         log_call_def init_ok_def ready_def lazily_initialised_def)
next
  case STDATOMIC
  with st ok show ?thesis
    by (cases p)
       (auto simp: global_lock_lock_step_def lock_step_stdatomic_def
         atomic_flag_test_and_set_def log_call_def init_ok_def lazily_initialised_def
         SPIN_WAIT_calls)
next
  case GCC_ATOMIC_BUILTIN
  with st ok show ?thesis
    by (cases p)
       (auto simp: global_lock_lock_step_def lock_step_gcc_atomic_def
         atomic_exchange_n_def log_call_def init_ok_def lazily_initialised_def
         SPIN_WAIT_calls)
next
  case GCC_SYNC_BUILTIN
  with st ok show ?thesis
    by (cases p)
       (auto simp: global_lock_lock_step_def lock_step_gcc_sync_def
         sync_lock_test_and_set_def log_call_def init_ok_def lazily_initialised_def
         SPIN_WAIT_calls)
qed (use s in \<open>simp_all add: lazily_initialised_def\<close>)

lemma lock_step_init:
  assumes st: "global_lock_lock_step c t p g = (p', g')"
    and ne: "exited g = None" and ok: "init_ok c g"
    and acq: "lazily_initialised (strategy c) \<longrightarrow> p = Acquire \<longrightarrow> once_flag c g"
  shows "init_ok c g' \<and> (once_flag c g \<longrightarrow> once_flag c g')
    \<and> (lazily_initialised (strategy c) \<longrightarrow> p' = Acquire \<longrightarrow> once_flag c g')
    \<and> (p' = Returned \<longrightarrow> p = Acquire \<or> p = Returned)"
proof (cases "lazily_initialised (strategy c)")
  case False
  with lock_step_static_init [OF st False ok] show ?thesis
    by (auto simp: once_flag_def lazily_initialised_def split: strategy.splits)
next
  case True
  then consider "strategy c = C11_THREADS" | "strategy c = WIN32_CS"
    by (auto simp: lazily_initialised_def)
  then show ?thesis
  proof cases
    case 1
    with st have "lock_step_c11 c t p g = (p', g')"
      by (simp add: global_lock_lock_step_def)
    from lock_step_c11_init [OF this 1 ne ok] acq True show ?thesis by simp
  next
    case 2
    with st have "lock_step_win32 c t p g = (p', g')"
      by (simp add: global_lock_lock_step_def)
    from lock_step_win32_init [OF this 2 ne ok] acq True show ?thesis by simp
  qed
qed

lemma unlock_init:
  assumes "held c g" and "init_ok c g"
    and "lazily_initialised (strategy c) \<longrightarrow> once_flag c g"
  shows "init_ok c (global_lock_unlock c t g)
    \<and> once_flag c (global_lock_unlock c t g) = once_flag c g"
  using assms
  by (cases "strategy c")
     (auto simp: held_def init_ok_def once_flag_def lock_object_def lazily_initialised_def
       ready_def global_lock_unlock_def mtx_unlock_def pthread_mutex_unlock_def
       LeaveCriticalSection_def atomic_flag_clear_def atomic_store_n_def
       sync_lock_release_def log_call_def constructions_def is_construction_def)

lemma init_inv_step:
  assumes li: "lock_inv c s" and ii: "init_inv c s"
  shows "init_inv c (step c s t)"
proof (cases "t < length (threads s) \<and> exited (globals s) = None")
  case False
  then have "step c s t = s" by (auto simp: step_def)
  with ii show ?thesis by simp
next
  case True
  then have tl: "t < length (threads s)" and ne: "exited (globals s) = None"
    by simp_all
  let ?ts = "threads s" and ?g = "globals s" and ?k = "counter s"
  let ?th = "threads s ! t"
  obtain th' g' k' where ts: "thread_step c t ?th ?g ?k = (th', g', k')"
    by (cases "thread_step c t ?th ?g ?k")
  have st: "step c s t = \<lparr> globals = g', counter = k', threads = ?ts[t := th'] \<rparr>"
    using True by (simp add: step_def ts)
  from ii have ok: "init_ok c ?g"
    and past: "\<And>u. lazily_initialised (strategy c) \<Longrightarrow> u < length ?ts \<Longrightarrow>
        past_init (?ts ! u) \<Longrightarrow> once_flag c ?g"
    by (auto simp: init_inv_def)
  from li tl have tok: "thread_ok ?k ?th"
    and hd: "in_cs (t_pc ?th) \<longrightarrow> held c ?g"
    by (auto simp: lock_inv_def)
  have main: "init_ok c g' \<and> (once_flag c ?g \<longrightarrow> once_flag c g')
      \<and> (lazily_initialised (strategy c) \<longrightarrow> past_init th' \<longrightarrow> once_flag c g')"
  proof (cases "t_pc ?th")
    case (In_lock p)
    obtain p' g1 where ls: "global_lock_lock_step c t p ?g = (p', g1)"
      by (cases "global_lock_lock_step c t p ?g")
    from tok In_lock have pr: "p \<noteq> Returned"
      by (simp add: thread_ok_def)
    from ts In_lock ls have r: "g' = g1"
      "th' = ?th\<lparr>t_pc := (if p' = Returned then Load_counter else In_lock p')\<rparr>"
      by (auto simp: thread_step_def)
    have acq: "lazily_initialised (strategy c) \<longrightarrow> p = Acquire \<longrightarrow> once_flag c ?g"
      using past [OF _ tl] In_lock by (simp add: past_init_def)
    have old: "lazily_initialised (strategy c) \<longrightarrow> 0 < t_i ?th \<longrightarrow> once_flag c ?g"
      using past [OF _ tl] by (simp add: past_init_def)
    from lock_step_init [OF ls ne ok acq] pr acq old show ?thesis
      by (auto simp: r past_init_def in_cs_def)
  next
    case Load_counter
    with ts have r: "g' = ?g" "th' = ?th\<lparr>t_pc := Store_counter, t_tmp := ?k\<rparr>"
      by (auto simp: thread_step_def)
    from ok past [OF _ tl] Load_counter show ?thesis
      by (simp add: r past_init_def in_cs_def)
  next
    case Store_counter
    with ts have r: "g' = ?g" "th' = ?th\<lparr>t_pc := In_unlock\<rparr>"
      by (auto simp: thread_step_def)
    from ok past [OF _ tl] Store_counter show ?thesis
      by (simp add: r past_init_def in_cs_def)
  next
    case In_unlock
    with ts have r: "g' = global_lock_unlock c t ?g"
      by (auto simp: thread_step_def)
    from In_unlock hd have h: "held c ?g" by (simp add: in_cs_def)
    have o: "lazily_initialised (strategy c) \<longrightarrow> once_flag c ?g"
      using past [OF _ tl] In_unlock by (simp add: past_init_def in_cs_def)
    from unlock_init [OF h ok o, of t] o show ?thesis
      by (simp add: r)
  next
    case Done
    with ts have r: "g' = ?g" "th' = ?th"
      by (auto simp: thread_step_def)
    from ok past [OF _ tl] show ?thesis
      by (auto simp: r)
  qed
  have "once_flag c g'"
    if l: "lazily_initialised (strategy c)" and u: "u < length ?ts"
      and p: "past_init (?ts[t := th'] ! u)" for u
  proof (cases "u = t")
    case True
    with p tl main l show ?thesis by simp
  next
    case False
    with p have "past_init (?ts ! u)" by simp
    from past [OF l u this] main show ?thesis by simp
  qed
  with main show ?thesis
    by (simp add: init_inv_def st)
qed

lemma inv_run: "lock_inv c s \<Longrightarrow> init_inv c s \<Longrightarrow> init_inv c (run c s sched)"
proof (induction sched arbitrary: s)
  case Nil
  then show ?case by (simp add: run_def)
next
  case (Cons t sched)
  from Cons.IH [OF lock_inv_step [OF Cons.prems(1)] init_inv_step [OF Cons.prems]]
  show ?case by (simp add: run_def)
qed

lemma init_inv_init: "init_inv c (init_sys c ns)"
proof -
  have "init_ok c (init_gstate c)"
    by (auto simp: init_ok_def init_gstate_simps once_flag_def lock_object_def ready_def
        constructions_def lazily_initialised_def)
  moreover have "\<not> past_init (init_thr c n)" if "lazily_initialised (strategy c)" for n
    using that
    by (auto simp: past_init_def init_thr_def loop_pc_def lock_entry_def in_cs_def
        lazily_initialised_def)
  ultimately show ?thesis
    by (simp add: init_inv_def init_sys_simps)
qed


text \<open>
  \<^bold>\<open>C5\<close>: on the C11 and the Windows strategy, for any number of threads and any schedule,
  first calls at the same time included.  The construction of the lock object (\<open>init_mtx\<close>,
  \<open>InitCriticalSection\<close>) has run at most once; it has run exactly once as soon as the
  once-flag is set; and every thread that is at the acquisition, in its critical section or
  in a later iteration finds the flag set and the object constructed and never destroyed.
  No library call has been made outside its contract.
\<close>

theorem lazy_init_exactly_once:
  assumes "lazily_initialised (strategy c)"
  shows "constructions (globals (run c (init_sys c ns) sched)) \<le> 1
    \<and> \<not> contract_broken (globals (run c (init_sys c ns) sched))
    \<and> (once_flag c (globals (run c (init_sys c ns) sched)) \<longrightarrow>
         constructions (globals (run c (init_sys c ns) sched)) = 1)
    \<and> (\<forall>t < length ns. past_init (threads (run c (init_sys c ns) sched) ! t) \<longrightarrow>
          once_flag c (globals (run c (init_sys c ns) sched))
          \<and> constructions (globals (run c (init_sys c ns) sched)) = 1
          \<and> ready (lock_object c (globals (run c (init_sys c ns) sched))))"
proof -
  let ?s = "run c (init_sys c ns) sched"
  have inv: "init_inv c ?s"
    by (rule inv_run [OF lock_inv_init init_inv_init])
  have "map t_n (threads ?s) = ns"
    by (simp add: run_t_n init_t_n)
  then have len: "length (threads ?s) = length ns"
    by (metis length_map)
  from inv assms have ok: "init_ok c (globals ?s)"
    and past: "\<forall>t < length ns. past_init (threads ?s ! t) \<longrightarrow> once_flag c (globals ?s)"
    by (simp_all add: init_inv_def len)
  from ok assms have
    "\<not> contract_broken (globals ?s)"
    "once_flag c (globals ?s) \<longrightarrow>
       constructions (globals ?s) = 1 \<and> ready (lock_object c (globals ?s))"
    "constructions (globals ?s) \<le> 1"
    by (auto simp: init_ok_def split: if_splits)
  with past show ?thesis by blast
qed

theorem lazy_init_exactly_once_witness:
  "lazily_initialised (strategy c11_cfg)
   \<and> past_init (threads (run c11_cfg (init_sys c11_cfg [2, 2]) racing_schedule) ! 0)
   \<and> past_init (threads (run c11_cfg (init_sys c11_cfg [2, 2]) racing_schedule) ! 1)
   \<and> constructions (globals (run c11_cfg (init_sys c11_cfg [2, 2]) racing_schedule)) = 1
   \<and> ready (lock_object c11_cfg (globals (run c11_cfg (init_sys c11_cfg [2, 2]) racing_schedule)))
   \<and> lazily_initialised (strategy win10_cfg)
   \<and> past_init (threads (run win10_cfg (init_sys win10_cfg [2, 2]) racing_schedule) ! 0)
   \<and> past_init (threads (run win10_cfg (init_sys win10_cfg [2, 2]) racing_schedule) ! 1)
   \<and> constructions (globals (run win10_cfg (init_sys win10_cfg [2, 2]) racing_schedule)) = 1
   \<and> ready (lock_object win10_cfg
        (globals (run win10_cfg (init_sys win10_cfg [2, 2]) racing_schedule)))"
proof -
  have l: "lazily_initialised (strategy c11_cfg)" "lazily_initialised (strategy win10_cfg)"
    by (simp_all add: lazily_initialised_def cfg_simps)
  have p: "past_init (threads (run c11_cfg (init_sys c11_cfg [2, 2]) racing_schedule) ! 0)"
    "past_init (threads (run c11_cfg (init_sys c11_cfg [2, 2]) racing_schedule) ! 1)"
    by code_simp+
  have q: "past_init (threads (run win10_cfg (init_sys win10_cfg [2, 2]) racing_schedule) ! 0)"
    "past_init (threads (run win10_cfg (init_sys win10_cfg [2, 2]) racing_schedule) ! 1)"
    by code_simp+
  have n: "(0::nat) < length [2::nat, 2]" by simp
  from n lazy_init_exactly_once [OF l(1), of "[2, 2]" racing_schedule] p(1)
  have "constructions (globals (run c11_cfg (init_sys c11_cfg [2, 2]) racing_schedule)) = 1
   \<and> ready (lock_object c11_cfg (globals (run c11_cfg (init_sys c11_cfg [2, 2]) racing_schedule)))"
    by blast
  moreover
  from n lazy_init_exactly_once [OF l(2), of "[2, 2]" racing_schedule] q(1)
  have "constructions (globals (run win10_cfg (init_sys win10_cfg [2, 2]) racing_schedule)) = 1
   \<and> ready (lock_object win10_cfg
        (globals (run win10_cfg (init_sys win10_cfg [2, 2]) racing_schedule)))"
    by blast
  ultimately show ?thesis using p q l by blast
qed

end
